theory Spec2Isabelle
  imports Complex_Main
begin

section \<open>JavaScript values used by the monitoring core\<close>

text \<open>
  Samples, medians and thresholds are JavaScript numbers. The model keeps the finite ones
  as rationals (exact arithmetic, no rounding). A division is the one place where the code
  can leave the finite numbers, so its result is a \<open>jsnum\<close>: \<open>x / 0\<close> is \<open>Infinity\<close>,
  \<open>-Infinity\<close> or \<open>NaN\<close> in JavaScript, never an exception.
\<close>

datatype jsnum = Finite rat | PosInfinity | NegInfinity | NaN

definition js_div :: "rat \<Rightarrow> rat \<Rightarrow> jsnum" where
  "js_div a b =
     (if b = 0 then (if a = 0 then NaN else if 0 < a then PosInfinity else NegInfinity)
      else Finite (a / b))"

fun isFinite :: "jsnum \<Rightarrow> bool" where
  "isFinite (Finite _) = True"
| "isFinite _ = False"

text \<open>\<open>x || d\<close> on an optional number: \<open>undefined\<close> and \<open>0\<close> are falsy and give \<open>d\<close>.\<close>

definition js_or :: "'a::zero option \<Rightarrow> 'a \<Rightarrow> 'a" where
  "js_or x d = (case x of None \<Rightarrow> d | Some v \<Rightarrow> if v = 0 then d else v)"

datatype js_error = BufferSizeMustBePositive

section \<open>CircularBuffer\<close>

text \<open>
  \<open>this.buffer = new Array(size)\<close> is an array of \<open>size\<close> empty slots. The model fills
  the slots with \<open>0\<close>; \<open>getAll_pushes\<close> below shows that \<open>getAll\<close> only ever reads
  slots that \<open>push\<close> has written, so the filler is never observed.
\<close>

record CircularBuffer =
  size_cb :: nat
  buffer :: "rat list"
  index :: nat
  count :: nat

definition new_CircularBuffer :: "int \<Rightarrow> js_error + CircularBuffer" where
  "new_CircularBuffer n =
     (if n \<le> 0 then Inl BufferSizeMustBePositive
      else Inr \<lparr>size_cb = nat n, buffer = replicate (nat n) 0, index = 0, count = 0\<rparr>)"

definition push :: "CircularBuffer \<Rightarrow> rat \<Rightarrow> CircularBuffer" where
  "push b v =
     b\<lparr>buffer := (buffer b)[index b := v],
       index := (index b + 1) mod size_cb b,
       count := (if count b < size_cb b then count b + 1 else count b)\<rparr>"

definition getAll :: "CircularBuffer \<Rightarrow> rat list" where
  "getAll b =
     (if count b < size_cb b then take (count b) (buffer b)
      else drop (index b) (buffer b) @ take (index b) (buffer b))"

definition getMedian :: "CircularBuffer \<Rightarrow> rat" where
  "getMedian b =
     (let values = sort (getAll b) in
      if length values = 0 then 0
      else let mid = length values div 2 in
        if length values mod 2 = 0 then (values ! (mid - 1) + values ! mid) / 2
        else values ! mid)"

definition getAverage :: "CircularBuffer \<Rightarrow> rat" where
  "getAverage b =
     (let values = getAll b in
      if length values = 0 then 0
      else foldl (\<lambda>sum v. sum + v) 0 values / of_nat (length values))"

definition getMin :: "CircularBuffer \<Rightarrow> rat" where
  "getMin b = (let values = getAll b in if length values = 0 then 0 else Min (set values))"

definition getMax :: "CircularBuffer \<Rightarrow> rat" where
  "getMax b = (let values = getAll b in if length values = 0 then 0 else Max (set values))"

definition isFull :: "CircularBuffer \<Rightarrow> bool" where
  "isFull b = (count b = size_cb b)"

definition length_cb :: "CircularBuffer \<Rightarrow> nat" where
  "length_cb b = count b"

definition clear :: "CircularBuffer \<Rightarrow> CircularBuffer" where
  "clear b = b\<lparr>buffer := replicate (size_cb b) 0, index := 0, count := 0\<rparr>"

record BufferJSON =
  size_json :: int
  values_json :: "rat list"

definition toJSON :: "CircularBuffer \<Rightarrow> BufferJSON" where
  "toJSON b = \<lparr>size_json = int (size_cb b), values_json = getAll b\<rparr>"

definition fromJSON :: "BufferJSON \<Rightarrow> js_error + CircularBuffer" where
  "fromJSON json =
     (case new_CircularBuffer (size_json json) of
        Inl e \<Rightarrow> Inl e
      | Inr b \<Rightarrow> Inr (foldl push b (values_json json)))"

text \<open>
  The representation invariant that the constructor establishes and \<open>push\<close> and
  \<open>clear\<close> keep: a positive capacity, one slot per unit of capacity, the cursor inside
  the array, and, until the buffer is full, the cursor right after the last sample.
\<close>

definition buffer_inv :: "CircularBuffer \<Rightarrow> bool" where
  "buffer_inv b =
     (0 < size_cb b \<and> length (buffer b) = size_cb b \<and> index b < size_cb b \<and>
      count b \<le> size_cb b \<and> (count b < size_cb b \<longrightarrow> index b = count b))"

text \<open>The last \<open>n\<close> elements of a list: what a buffer of capacity \<open>n\<close> retains.\<close>

definition last_n :: "nat \<Rightarrow> 'a list \<Rightarrow> 'a list" where
  "last_n n xs = drop (length xs - n) xs"

section \<open>JavaScript Map and Set\<close>

text \<open>
  A JavaScript \<open>Map\<close> keeps its entries in insertion order and \<open>save\<close> writes them out
  as an array of pairs, so a Map is an association list here. \<open>set\<close> overwrites the value
  of a key in place and appends a new key at the end; \<open>delete\<close> removes the key;
  \<open>new Map(entries)\<close> sets the entries one after the other. A \<open>Set\<close> is the list of its
  members in insertion order.
\<close>

type_synonym ('k, 'v) js_map = "('k \<times> 'v) list"

definition Map_get :: "('k, 'v) js_map \<Rightarrow> 'k \<Rightarrow> 'v option" where
  "Map_get m k = map_of m k"

fun Map_set :: "('k, 'v) js_map \<Rightarrow> 'k \<Rightarrow> 'v \<Rightarrow> ('k, 'v) js_map" where
  "Map_set [] k v = [(k, v)]"
| "Map_set (e # m) k v = (if fst e = k then (k, v) # m else e # Map_set m k v)"

definition Map_delete :: "('k, 'v) js_map \<Rightarrow> 'k \<Rightarrow> ('k, 'v) js_map" where
  "Map_delete m k = filter (\<lambda>e. fst e \<noteq> k) m"

definition new_Map :: "('k \<times> 'v) list \<Rightarrow> ('k, 'v) js_map" where
  "new_Map entries = foldl (\<lambda>m e. Map_set m (fst e) (snd e)) [] entries"

type_synonym 'a js_set = "'a list"

definition Set_has :: "'a js_set \<Rightarrow> 'a \<Rightarrow> bool" where
  "Set_has s x = (x \<in> set s)"

definition Set_add :: "'a js_set \<Rightarrow> 'a \<Rightarrow> 'a js_set" where
  "Set_add s x = (if x \<in> set s then s else s @ [x])"

definition Set_delete :: "'a js_set \<Rightarrow> 'a \<Rightarrow> 'a js_set" where
  "Set_delete s x = filter (\<lambda>y. y \<noteq> x) s"

definition new_Set :: "'a list \<Rightarrow> 'a js_set" where
  "new_Set xs = foldl Set_add [] xs"

section \<open>StateManager\<close>

text \<open>
  Timestamps are milliseconds since the epoch (\<open>Date.now()\<close>), passed to every operation
  as the argument \<open>now\<close>: the synchronous calls that make up one operation read the
  clock within the same millisecond. \<open>config.alerts\<close> may be absent and so may each of
  its properties: an absent value is \<open>None\<close>.
\<close>

record AlertsConfig =
  cooldownMinutes :: "rat option"
  flappingThreshold :: "rat option"
  flappingWindowMinutes :: "rat option"
  recoveryNotify :: "bool option"

record FailureRecord =
  firstSeen :: int
  lastAlertSent :: int
  error :: "string option"
  consecutiveFailures :: nat

datatype Health = healthy_state | unhealthy_state

record Transition =
  time :: int
  state :: Health

record State =
  failures :: "(string, FailureRecord) js_map"
  flapping :: "(string, Transition list) js_map"
  acknowledged :: "string js_set"
  sslExpiry :: "(string, string) js_map"

record StateManager =
  config :: AlertsConfig
  state_sm :: State

datatype Action = first_failure | ongoing_failure | suppressed

record RecoveryInfo =
  downtimeDuration :: int
  failuresSeen :: nat
  firstSeen_info :: int

record FlappingInfo =
  isFlapping_info :: bool
  transitionCount :: nat
  transitions_info :: "Transition list"

text \<open>
  The persisted document: four collections and the time of the save. A collection that
  the document lacks is \<open>None\<close> (\<open>data.failures || []\<close> reads it as empty). The state file
  is missing, unreadable as JSON, or holds a document; \<open>JSON.parse\<close> gives back the
  arrays, strings and integers that \<open>JSON.stringify\<close> wrote.
\<close>

record PersistedState =
  failures_json :: "(string \<times> FailureRecord) list option"
  flapping_json :: "(string \<times> Transition list) list option"
  acknowledged_json :: "string list option"
  sslExpiry_json :: "(string \<times> string) list option"
  lastSaved :: int

datatype StateFile = Missing | Corrupt | Document PersistedState

definition empty_State :: State where
  "empty_State = \<lparr>failures = [], flapping = [], acknowledged = [], sslExpiry = []\<rparr>"

definition or_empty :: "'a list option \<Rightarrow> 'a list" where
  "or_empty x = (case x of None \<Rightarrow> [] | Some xs \<Rightarrow> xs)"

definition load :: "StateManager \<Rightarrow> StateFile \<Rightarrow> StateManager" where
  "load sm file =
     (case file of
        Missing \<Rightarrow> sm
      | Corrupt \<Rightarrow> sm
      | Document data \<Rightarrow>
          sm\<lparr>state_sm :=
            \<lparr>failures = new_Map (or_empty (failures_json data)),
             flapping = new_Map (or_empty (flapping_json data)),
             acknowledged = new_Set (or_empty (acknowledged_json data)),
             sslExpiry = new_Map (or_empty (sslExpiry_json data))\<rparr>\<rparr>)"

text \<open>
  \<open>save\<close> writes the document; when the write throws, the error is logged and the file
  stays as it was (\<open>write_ok = False\<close>).
\<close>

definition save :: "StateManager \<Rightarrow> int \<Rightarrow> bool \<Rightarrow> StateFile \<Rightarrow> StateFile" where
  "save sm now write_ok file =
     (if write_ok then
        Document \<lparr>failures_json = Some (failures (state_sm sm)),
                  flapping_json = Some (flapping (state_sm sm)),
                  acknowledged_json = Some (acknowledged (state_sm sm)),
                  sslExpiry_json = Some (sslExpiry (state_sm sm)),
                  lastSaved = now\<rparr>
      else file)"

definition new_StateManager :: "StateFile \<Rightarrow> AlertsConfig \<Rightarrow> StateManager" where
  "new_StateManager file cfg = load \<lparr>config = cfg, state_sm = empty_State\<rparr> file"

definition set_failures :: "StateManager \<Rightarrow> (string, FailureRecord) js_map \<Rightarrow> StateManager" where
  "set_failures sm f = sm\<lparr>state_sm := (state_sm sm)\<lparr>failures := f\<rparr>\<rparr>"

definition set_flapping :: "StateManager \<Rightarrow> (string, Transition list) js_map \<Rightarrow> StateManager" where
  "set_flapping sm f = sm\<lparr>state_sm := (state_sm sm)\<lparr>flapping := f\<rparr>\<rparr>"

definition recordFailure ::
  "StateManager \<Rightarrow> string \<Rightarrow> string option \<Rightarrow> int \<Rightarrow> Action \<times> StateManager" where
  "recordFailure sm serviceId err now =
     (case Map_get (failures (state_sm sm)) serviceId of
        None \<Rightarrow>
          (first_failure,
           set_failures sm (Map_set (failures (state_sm sm)) serviceId
             \<lparr>firstSeen = now, lastAlertSent = now, error = err, consecutiveFailures = 1\<rparr>))
      | Some existing0 \<Rightarrow>
          let existing = existing0\<lparr>consecutiveFailures := consecutiveFailures existing0 + 1,
                                   error := err\<rparr>;
              sm1 = set_failures sm (Map_set (failures (state_sm sm)) serviceId existing);
              cooldownMs = js_or (cooldownMinutes (config sm)) 30 * 60 * 1000;
              minutesSinceLastAlert = of_int (now - lastAlertSent existing) / 1000 / 60
          in if minutesSinceLastAlert \<ge> cooldownMs / 60000 then
               (ongoing_failure,
                set_failures sm1 (Map_set (failures (state_sm sm1)) serviceId
                  (existing\<lparr>lastAlertSent := now\<rparr>)))
             else (suppressed, sm1))"

definition recordRecovery ::
  "StateManager \<Rightarrow> string \<Rightarrow> int \<Rightarrow> RecoveryInfo option \<times> StateManager" where
  "recordRecovery sm serviceId now =
     (case Map_get (failures (state_sm sm)) serviceId of
        None \<Rightarrow> (None, sm)
      | Some failure \<Rightarrow>
          let downtime = now - firstSeen failure in
          (Some \<lparr>downtimeDuration = downtime,
                 failuresSeen = consecutiveFailures failure,
                 firstSeen_info = firstSeen failure\<rparr>,
           set_failures sm (Map_delete (failures (state_sm sm)) serviceId)))"

definition isFlapping :: "StateManager \<Rightarrow> string \<Rightarrow> int \<Rightarrow> bool" where
  "isFlapping sm serviceId now =
     (let transitions = or_empty (Map_get (flapping (state_sm sm)) serviceId) in
      if length transitions < 3 then False
      else
        let threshold = js_or (flappingThreshold (config sm)) 3;
            windowMs = js_or (flappingWindowMinutes (config sm)) 10 * 60 * 1000;
            recentTransitions = filter (\<lambda>t. of_int (now - time t) < windowMs) transitions
        in of_nat (length recentTransitions) \<ge> threshold)"

definition recordStateChange ::
  "StateManager \<Rightarrow> string \<Rightarrow> Health \<Rightarrow> int \<Rightarrow> bool \<times> StateManager" where
  "recordStateChange sm serviceId newState now =
     (let transitions0 = or_empty (Map_get (flapping (state_sm sm)) serviceId);
          transitions1 = transitions0 @ [\<lparr>time = now, state = newState\<rparr>];
          transitions = (if length transitions1 > 10 then tl transitions1 else transitions1);
          sm1 = set_flapping sm (Map_set (flapping (state_sm sm)) serviceId transitions)
      in (isFlapping sm1 serviceId now, sm1))"

definition getFlappingInfo :: "StateManager \<Rightarrow> string \<Rightarrow> int \<Rightarrow> FlappingInfo" where
  "getFlappingInfo sm serviceId now =
     (let transitions = or_empty (Map_get (flapping (state_sm sm)) serviceId);
          windowMs = js_or (flappingWindowMinutes (config sm)) 10 * 60 * 1000;
          recentTransitions = filter (\<lambda>t. of_int (now - time t) < windowMs) transitions
      in \<lparr>isFlapping_info = isFlapping sm serviceId now,
          transitionCount = length recentTransitions,
          transitions_info = recentTransitions\<rparr>)"

definition isAcknowledged :: "StateManager \<Rightarrow> string \<Rightarrow> bool" where
  "isAcknowledged sm serviceId = Set_has (acknowledged (state_sm sm)) serviceId"

definition acknowledge :: "StateManager \<Rightarrow> string \<Rightarrow> StateManager" where
  "acknowledge sm serviceId =
     sm\<lparr>state_sm := (state_sm sm)\<lparr>acknowledged := Set_add (acknowledged (state_sm sm)) serviceId\<rparr>\<rparr>"

definition unacknowledge :: "StateManager \<Rightarrow> string \<Rightarrow> StateManager" where
  "unacknowledge sm serviceId =
     sm\<lparr>state_sm := (state_sm sm)\<lparr>acknowledged := Set_delete (acknowledged (state_sm sm)) serviceId\<rparr>\<rparr>"

definition getFailure :: "StateManager \<Rightarrow> string \<Rightarrow> FailureRecord option" where
  "getFailure sm serviceId = Map_get (failures (state_sm sm)) serviceId"

definition updateSSLExpiry :: "StateManager \<Rightarrow> string \<Rightarrow> string \<Rightarrow> StateManager" where
  "updateSSLExpiry sm domain expiryISO =
     sm\<lparr>state_sm := (state_sm sm)\<lparr>sslExpiry := Map_set (sslExpiry (state_sm sm)) domain expiryISO\<rparr>\<rparr>"

definition clearFlappingHistory :: "StateManager \<Rightarrow> string \<Rightarrow> StateManager" where
  "clearFlappingHistory sm serviceId =
     set_flapping sm (Map_delete (flapping (state_sm sm)) serviceId)"

text \<open>
  A Map holds one entry per key. The association lists of a state reached through the
  operations above have pairwise distinct keys, and the acknowledged list has no
  duplicates.
\<close>

definition state_inv :: "State \<Rightarrow> bool" where
  "state_inv s =
     (distinct (map fst (failures s)) \<and> distinct (map fst (flapping s)) \<and>
      distinct (acknowledged s) \<and> distinct (map fst (sslExpiry s)))"

section \<open>AnomalyDetector\<close>

record AnomalyConfig =
  enabled_cfg :: "bool option"
  multiplier_cfg :: "rat option"
  sampleSize_cfg :: "int option"

record AnomalyDetector =
  enabled :: bool
  multiplier :: rat
  sampleSize :: int
  responseTimes :: "(string, CircularBuffer) js_map"

definition new_AnomalyDetector :: "AnomalyConfig \<Rightarrow> AnomalyDetector" where
  "new_AnomalyDetector cfg =
     \<lparr>enabled = (enabled_cfg cfg \<noteq> Some False),
      multiplier = js_or (multiplier_cfg cfg) 3,
      sampleSize = js_or (sampleSize_cfg cfg) 20,
      responseTimes = []\<rparr>"

text \<open>
  \<open>recordResponseTime\<close> creates the buffer of a new service with
  \<open>new CircularBuffer(this.sampleSize)\<close>, which throws for a non-positive size; the
  exception leaves the detector as it was.
\<close>

definition recordResponseTime ::
  "AnomalyDetector \<Rightarrow> string \<Rightarrow> rat \<Rightarrow> js_error + AnomalyDetector" where
  "recordResponseTime d serviceId responseTime =
     (if \<not> enabled d then Inr d
      else case Map_get (responseTimes d) serviceId of
        Some b \<Rightarrow> Inr (d\<lparr>responseTimes := Map_set (responseTimes d) serviceId (push b responseTime)\<rparr>)
      | None \<Rightarrow>
          (case new_CircularBuffer (sampleSize d) of
             Inl e \<Rightarrow> Inl e
           | Inr b \<Rightarrow>
               Inr (d\<lparr>responseTimes :=
                      Map_set (responseTimes d) serviceId (push b responseTime)\<rparr>)))"

text \<open>
  The three shapes of the object that \<open>checkAnomaly\<close> returns: detection disabled, too
  few samples (with \<open>samplesCollected\<close>), and the full assessment.
\<close>

record Assessment =
  isAnomaly_a :: bool
  responseTime_a :: rat
  median :: rat
  average :: rat
  threshold :: rat
  multiplier_a :: rat
  deviation :: jsnum
  samples :: nat

datatype AnomalyResult =
  DetectionDisabled
| InsufficientSamples nat
| Assessed Assessment

fun isAnomaly :: "AnomalyResult \<Rightarrow> bool" where
  "isAnomaly DetectionDisabled = False"
| "isAnomaly (InsufficientSamples _) = False"
| "isAnomaly (Assessed a) = isAnomaly_a a"

fun reason :: "AnomalyResult \<Rightarrow> string option" where
  "reason DetectionDisabled = Some ''detection disabled''"
| "reason (InsufficientSamples _) = Some ''insufficient samples''"
| "reason (Assessed a) = None"

text \<open>
  \<open>checkAnomaly\<close> is a method of a mutable object: the model returns the detector after
  the call next to the result.
\<close>

definition checkAnomaly ::
  "AnomalyDetector \<Rightarrow> string \<Rightarrow> rat \<Rightarrow> AnomalyResult \<times> AnomalyDetector" where
  "checkAnomaly d serviceId responseTime =
     (if \<not> enabled d then (DetectionDisabled, d)
      else case Map_get (responseTimes d) serviceId of
        None \<Rightarrow> (InsufficientSamples 0, d)
      | Some b \<Rightarrow>
          if length_cb b < 5 then (InsufficientSamples (length_cb b), d)
          else
            let med = getMedian b;
                avg = getAverage b;
                thr = med * multiplier d;
                anomalous = (responseTime > thr)
            in (Assessed \<lparr>isAnomaly_a = anomalous, responseTime_a = responseTime,
                           median = med, average = avg, threshold = thr,
                           multiplier_a = multiplier d,
                           deviation = js_div responseTime med,
                           samples = length_cb b\<rparr>, d))"

section \<open>Monitor\<close>

text \<open>
  A check result as the checkers return it. The notifier is the object whose \<open>send...\<close>
  methods the monitor calls; the model records the calls in order. A monitor built
  without a notifier has \<open>None\<close> there.
\<close>

record CheckResult =
  healthy :: bool
  error_result :: "string option"
  responseTime :: rat

datatype Notification =
  FailureAlert string Action
| RecoveryAlert string RecoveryInfo
| FlappingAlert string FlappingInfo
| SSLWarning string
| ResourceWarning string
| AnomalyAlert string AnomalyResult

record Monitor =
  config_m :: AlertsConfig
  stateManager :: StateManager
  anomalyDetector :: AnomalyDetector
  notifier :: "Notification list option"

definition send :: "Monitor \<Rightarrow> Notification \<Rightarrow> Monitor" where
  "send m n = (case notifier m of None \<Rightarrow> m | Some calls \<Rightarrow> m\<lparr>notifier := Some (calls @ [n])\<rparr>)"

definition startsWith :: "string \<Rightarrow> string \<Rightarrow> bool" where
  "startsWith s p = (take (length p) s = p)"

text \<open>\<open>serviceId.split(':')[1]\<close> for a \<open>serviceId\<close> that starts with \<open>resource:\<close>.\<close>

definition resourceType :: "string \<Rightarrow> string" where
  "resourceType serviceId = takeWhile (\<lambda>c. c \<noteq> CHR '':'') (drop (length ''resource:'') serviceId)"

definition handleFailure :: "Monitor \<Rightarrow> string \<Rightarrow> CheckResult \<Rightarrow> int \<Rightarrow> Monitor" where
  "handleFailure m serviceId result now =
     (let (alertAction, sm1) = recordFailure (stateManager m) serviceId (error_result result) now;
          m1 = m\<lparr>stateManager := sm1\<rparr>
      in if isFlapping sm1 serviceId now then
           send m1 (FlappingAlert serviceId (getFlappingInfo sm1 serviceId now))
         else if alertAction = first_failure \<or> alertAction = ongoing_failure then
           (if startsWith serviceId ''ssl:'' then send m1 (SSLWarning serviceId)
            else if startsWith serviceId ''resource:'' then
              send m1 (ResourceWarning (resourceType serviceId))
            else send m1 (FailureAlert serviceId alertAction))
         else m1)"

definition handleRecovery :: "Monitor \<Rightarrow> string \<Rightarrow> int \<Rightarrow> Monitor" where
  "handleRecovery m serviceId now =
     (let (recovery, sm1) = recordRecovery (stateManager m) serviceId now;
          m1 = m\<lparr>stateManager := sm1\<rparr>
      in case recovery of
           None \<Rightarrow> m1
         | Some info \<Rightarrow>
             let m2 = (if recoveryNotify (config_m m1) = Some True
                       then send m1 (RecoveryAlert serviceId info) else m1)
             in m2\<lparr>stateManager := clearFlappingHistory (stateManager m2) serviceId\<rparr>)"

definition handleAnomaly :: "Monitor \<Rightarrow> string \<Rightarrow> AnomalyResult \<Rightarrow> Monitor" where
  "handleAnomaly m serviceId anomaly = send m (AnomalyAlert serviceId anomaly)"

definition handleCheckResult :: "Monitor \<Rightarrow> string \<Rightarrow> CheckResult \<Rightarrow> int \<Rightarrow> Monitor" where
  "handleCheckResult m serviceId result now =
     (if isAcknowledged (stateManager m) serviceId then m
      else
        let previousFailure = getFailure (stateManager m) serviceId;
            wasHealthy = (previousFailure = None);
            isHealthy = healthy result;
            m1 = (if wasHealthy \<noteq> isHealthy then
                    m\<lparr>stateManager :=
                        snd (recordStateChange (stateManager m) serviceId
                               (if isHealthy then healthy_state else unhealthy_state) now)\<rparr>
                  else m)
        in if \<not> healthy result then handleFailure m1 serviceId result now
           else if previousFailure \<noteq> None then handleRecovery m1 serviceId now
           else m1)"

text \<open>
  \<open>checkEndpoint\<close> awaits the HTTP checker, which is outside the core: its outcome is the
  argument \<open>outcome\<close>, \<open>None\<close> when the checker throws. Every exception inside the
  \<open>try\<close> block is caught and logged, and the rest of the block is skipped.
\<close>

definition checkEndpoint :: "Monitor \<Rightarrow> string \<Rightarrow> CheckResult option \<Rightarrow> int \<Rightarrow> Monitor" where
  "checkEndpoint m url outcome now =
     (let serviceId = ''http:'' @ url in
      case outcome of
        None \<Rightarrow> m
      | Some result \<Rightarrow>
          if healthy result then
            (case recordResponseTime (anomalyDetector m) serviceId (responseTime result) of
               Inl e \<Rightarrow> m
             | Inr d1 \<Rightarrow>
                 let (anomaly, d2) = checkAnomaly d1 serviceId (responseTime result);
                     m1 = m\<lparr>anomalyDetector := d2\<rparr>;
                     m2 = (if isAnomaly anomaly then handleAnomaly m1 serviceId anomaly else m1)
                 in handleCheckResult m2 serviceId result now)
          else handleCheckResult m serviceId result now)"

section \<open>Call sequences\<close>

text \<open>
  A call of \<open>recordFailure(serviceId, error)\<close> or of \<open>recordRecovery(serviceId)\<close>, with
  the clock reading at the call, and the state manager after a sequence of such calls.
\<close>

datatype Call = Failure string "string option" int | Recovery string int

fun call_id :: "Call \<Rightarrow> string" where
  "call_id (Failure serviceId _ _) = serviceId"
| "call_id (Recovery serviceId _) = serviceId"

fun is_failure :: "Call \<Rightarrow> bool" where
  "is_failure (Failure _ _ _) = True"
| "is_failure (Recovery _ _) = False"

fun apply_call :: "StateManager \<Rightarrow> Call \<Rightarrow> StateManager" where
  "apply_call sm (Failure serviceId err now) = snd (recordFailure sm serviceId err now)"
| "apply_call sm (Recovery serviceId now) = snd (recordRecovery sm serviceId now)"

definition run_calls :: "StateManager \<Rightarrow> Call list \<Rightarrow> StateManager" where
  "run_calls sm calls = foldl apply_call sm calls"

text \<open>
  The specification's side of the existence invariant: the most recent call for the
  service, if there is one, is a \<open>recordFailure\<close>.
\<close>

definition last_call_is_failure :: "string \<Rightarrow> Call list \<Rightarrow> bool" where
  "last_call_is_failure serviceId calls =
     (case rev (filter (\<lambda>c. call_id c = serviceId) calls) of
        [] \<Rightarrow> False
      | c # _ \<Rightarrow> is_failure c)"

text \<open>
  The transitions of a service that \<open>isFlapping\<close> and \<open>getFlappingInfo\<close> count: those
  younger than the window.
\<close>

definition recentTransitions :: "StateManager \<Rightarrow> string \<Rightarrow> int \<Rightarrow> Transition list" where
  "recentTransitions sm serviceId now =
     filter (\<lambda>t. of_int (now - time t) < js_or (flappingWindowMinutes (config sm)) 10 * 60 * 1000)
       (or_empty (Map_get (flapping (state_sm sm)) serviceId))"

text \<open>
  The number of samples held for a service, \<open>buffer ? buffer.length() : 0\<close>, and a
  sequence of \<open>recordResponseTime\<close> calls, which stops at the first exception.
\<close>

definition samplesCollected :: "AnomalyDetector \<Rightarrow> string \<Rightarrow> nat" where
  "samplesCollected d serviceId =
     (case Map_get (responseTimes d) serviceId of None \<Rightarrow> 0 | Some b \<Rightarrow> length_cb b)"

fun recordAll :: "AnomalyDetector \<Rightarrow> (string \<times> rat) list \<Rightarrow> js_error + AnomalyDetector" where
  "recordAll d [] = Inr d"
| "recordAll d (c # cs) =
     (case recordResponseTime d (fst c) (snd c) of
        Inl e \<Rightarrow> Inl e
      | Inr d' \<Rightarrow> recordAll d' cs)"

text \<open>
  Every buffer of a detector was built by \<open>new CircularBuffer(this.sampleSize)\<close> and
  filled by \<open>push\<close>.
\<close>

definition detector_inv :: "AnomalyDetector \<Rightarrow> bool" where
  "detector_inv d =
     (distinct (map fst (responseTimes d)) \<and>
      list_all (\<lambda>e. buffer_inv (snd e) \<and> int (size_cb (snd e)) = sampleSize d) (responseTimes d))"

text \<open>The alerts that report a service as down, and the notifier calls made so far.\<close>

fun is_down_alert :: "Notification \<Rightarrow> bool" where
  "is_down_alert (FailureAlert _ _) = True"
| "is_down_alert (SSLWarning _) = True"
| "is_down_alert (ResourceWarning _) = True"
| "is_down_alert _ = False"

definition sent :: "Monitor \<Rightarrow> Notification list" where
  "sent m = or_empty (notifier m)"

fun is_anomaly_alert :: "Notification \<Rightarrow> bool" where
  "is_anomaly_alert (AnomalyAlert _ _) = True"
| "is_anomaly_alert _ = False"

text \<open>
  The alert that \<open>handleFailure\<close> sends for a first or an ongoing failure, chosen by the
  prefix of the service id.
\<close>

definition down_alert :: "string \<Rightarrow> Action \<Rightarrow> Notification" where
  "down_alert serviceId alertAction =
     (if startsWith serviceId ''ssl:'' then SSLWarning serviceId
      else if startsWith serviceId ''resource:'' then ResourceWarning (resourceType serviceId)
      else FailureAlert serviceId alertAction)"

text \<open>The properties \<open>deviation\<close> and \<open>threshold\<close> of a result, absent on the short shapes.\<close>

fun deviation_of :: "AnomalyResult \<Rightarrow> jsnum option" where
  "deviation_of (Assessed a) = Some (deviation a)"
| "deviation_of _ = None"

fun threshold_of :: "AnomalyResult \<Rightarrow> rat option" where
  "threshold_of (Assessed a) = Some (threshold a)"
| "threshold_of _ = None"

section \<open>Example inputs\<close>

definition default_alerts :: AlertsConfig where
  "default_alerts =
     \<lparr>cooldownMinutes = None, flappingThreshold = None, flappingWindowMinutes = None,
      recoveryNotify = None\<rparr>"

definition default_anomaly :: AnomalyConfig where
  "default_anomaly = \<lparr>enabled_cfg = None, multiplier_cfg = None, sampleSize_cfg = None\<rparr>"

definition fresh_monitor :: "AlertsConfig \<Rightarrow> Monitor" where
  "fresh_monitor cfg =
     \<lparr>config_m = cfg, stateManager = new_StateManager Missing cfg,
      anomalyDetector = new_AnomalyDetector default_anomaly, notifier = Some []\<rparr>"

definition down_result :: CheckResult where
  "down_result = \<lparr>healthy = False, error_result = Some ''Connection refused'', responseTime = 0\<rparr>"

definition up_result :: "rat \<Rightarrow> CheckResult" where
  "up_result t = \<lparr>healthy = True, error_result = None, responseTime = t\<rparr>"

definition empty3 :: CircularBuffer where
  "empty3 = \<lparr>size_cb = 3, buffer = [0, 0, 0], index = 0, count = 0\<rparr>"

definition empty4 :: CircularBuffer where
  "empty4 = \<lparr>size_cb = 4, buffer = [0, 0, 0, 0], index = 0, count = 0\<rparr>"

definition empty6 :: CircularBuffer where
  "empty6 = \<lparr>size_cb = 6, buffer = [0, 0, 0, 0, 0, 0], index = 0, count = 0\<rparr>"

definition wrapped3 :: CircularBuffer where
  "wrapped3 = foldl push empty3 [7, 100, 150, 120]"

definition busy_state :: StateManager where
  "busy_state =
     updateSSLExpiry
       (acknowledge
          (snd (recordStateChange
             (snd (recordFailure (new_StateManager Missing default_alerts)
                     ''docker:web'' (Some ''exited'') 1000))
             ''docker:web'' unhealthy_state 1000))
          ''pm2:worker'')
       ''example.org'' ''2027-01-01T00:00:00.000Z''"

text \<open>
  The scenario of the specification: service X fails at 0, at 5 minutes and at 31
  minutes, and recovers at 32 minutes.
\<close>

definition scenario_s0 :: StateManager where
  "scenario_s0 = new_StateManager Missing default_alerts"

definition scenario_s1 :: StateManager where
  "scenario_s1 = snd (recordFailure scenario_s0 ''X'' (Some ''down'') 0)"

definition scenario_s2 :: StateManager where
  "scenario_s2 = snd (recordFailure scenario_s1 ''X'' (Some ''still down'') 300000)"

definition scenario_s3 :: StateManager where
  "scenario_s3 = snd (recordFailure scenario_s2 ''X'' (Some ''timeout'') 1860000)"

definition scenario_calls :: "Call list" where
  "scenario_calls =
     [Failure ''X'' (Some ''down'') 0, Failure ''Y'' None 10, Recovery ''X'' 20,
      Failure ''X'' (Some ''down'') 30, Recovery ''Y'' 40, Recovery ''Z'' 50]"

text \<open>Two and three state changes of one service, one minute apart.\<close>

definition threshold2_alerts :: AlertsConfig where
  "threshold2_alerts = default_alerts\<lparr>flappingThreshold := Some 2\<rparr>"

definition two_flips :: "AlertsConfig \<Rightarrow> StateManager" where
  "two_flips cfg =
     snd (recordStateChange
       (snd (recordStateChange (new_StateManager Missing cfg) ''svc'' unhealthy_state 0))
       ''svc'' healthy_state 60000)"

definition three_flips :: "AlertsConfig \<Rightarrow> StateManager" where
  "three_flips cfg = snd (recordStateChange (two_flips cfg) ''svc'' unhealthy_state 120000)"

definition flapping_monitor :: Monitor where
  "flapping_monitor = (fresh_monitor default_alerts)\<lparr>stateManager := three_flips default_alerts\<rparr>"

text \<open>Detectors after a sequence of recorded samples, under the default configuration.\<close>

definition ten_samples :: "(string \<times> rat) list" where
  "ten_samples = replicate 10 (''http:api'', 100)"

definition four_samples :: "(string \<times> rat) list" where
  "four_samples = replicate 4 (''http:api'', 100)"

definition zero_samples :: "(string \<times> rat) list" where
  "zero_samples =
     [(''http:idle'', 0), (''http:idle'', 7), (''http:idle'', 0), (''http:idle'', 5),
      (''http:idle'', 0)]"

definition detector_after :: "(string \<times> rat) list \<Rightarrow> AnomalyDetector" where
  "detector_after calls =
     (case recordAll (new_AnomalyDetector default_anomaly) calls of
        Inr d \<Rightarrow> d
      | Inl e \<Rightarrow> new_AnomalyDetector default_anomaly)"

definition idle_buffer :: CircularBuffer where
  "idle_buffer = \<lparr>size_cb = 20, buffer = [0, 7, 0, 5, 0] @ replicate 15 0, index = 5, count = 5\<rparr>"

text \<open>A monitor whose service \<open>http:api\<close> has been acknowledged.\<close>

definition acked_monitor :: Monitor where
  "acked_monitor =
     (fresh_monitor default_alerts)
       \<lparr>stateManager := acknowledge (new_StateManager Missing default_alerts) ''http:api''\<rparr>"

definition acked_warm_monitor :: Monitor where
  "acked_warm_monitor = acked_monitor\<lparr>anomalyDetector := detector_after ten_samples\<rparr>"

text \<open>
  A detector whose window is shorter than the five-sample minimum
  (\<open>ANOMALY_SAMPLE_SIZE=3\<close>), and its state after the ten samples of \<open>ten_samples\<close>.
\<close>

definition small_window :: AnomalyConfig where
  "small_window = \<lparr>enabled_cfg = None, multiplier_cfg = None, sampleSize_cfg = Some 3\<rparr>"

definition small_detector :: AnomalyDetector where
  "small_detector =
     \<lparr>enabled = True, multiplier = 3, sampleSize = 3,
      responseTimes =
        [(''http:api'', \<lparr>size_cb = 3, buffer = [100, 100, 100], index = 1, count = 3\<rparr>)]\<rparr>"

definition api_buffer :: CircularBuffer where
  "api_buffer =
     \<lparr>size_cb = 20, buffer = replicate 10 100 @ replicate 10 0, index = 10, count = 10\<rparr>"

section \<open>Properties of the ring buffer\<close>

lemma buffer_inv_new:
  "new_CircularBuffer n = Inr b \<Longrightarrow> buffer_inv b"
  by (auto simp: new_CircularBuffer_def buffer_inv_def split: if_splits)

lemma buffer_inv_push:
  "buffer_inv b \<Longrightarrow> buffer_inv (push b v)"
  by (auto simp: buffer_inv_def push_def)

lemma buffer_inv_pushes:
  "buffer_inv b \<Longrightarrow> buffer_inv (foldl push b vs)"
  by (induction vs arbitrary: b) (simp_all add: buffer_inv_push)

lemma length_getAll:
  "buffer_inv b \<Longrightarrow> length (getAll b) = count b"
  by (auto simp: buffer_inv_def getAll_def)

lemma getAll_push:
  assumes "buffer_inv b"
  shows "getAll (push b v) = (if count b < size_cb b then getAll b else tl (getAll b)) @ [v]"
proof (cases "count b < size_cb b")
  case True
  with assms have i: "index b = count b" and l: "length (buffer b) = size_cb b"
    by (auto simp: buffer_inv_def)
  show ?thesis
  proof (cases "count b + 1 < size_cb b")
    case True
    with \<open>count b < size_cb b\<close> i l show ?thesis
      by (simp add: getAll_def push_def take_Suc_conv_app_nth)
  next
    case False
    with \<open>count b < size_cb b\<close> have e: "size_cb b = count b + 1" by simp
    with i l show ?thesis
      by (simp add: getAll_def push_def upd_conv_take_nth_drop)
  qed
next
  case False
  with assms have c: "count b = size_cb b" and i: "index b < size_cb b"
    and l: "length (buffer b) = size_cb b"
    by (auto simp: buffer_inv_def)
  have t: "tl (getAll b) = drop (index b + 1) (buffer b) @ take (index b) (buffer b)"
  proof -
    have "drop (index b) (buffer b) = buffer b ! index b # drop (Suc (index b)) (buffer b)"
      using i l by (simp add: Cons_nth_drop_Suc)
    then show ?thesis using c by (simp add: getAll_def)
  qed
  show ?thesis
  proof (cases "index b + 1 < size_cb b")
    case True
    with c i l t show ?thesis
      by (simp add: getAll_def push_def take_Suc_conv_app_nth)
  next
    case False
    with i have e: "size_cb b = index b + 1" by simp
    with c l t show ?thesis
      by (simp add: getAll_def push_def upd_conv_take_nth_drop)
  qed
qed

lemma size_cb_pushes: "size_cb (foldl push b vs) = size_cb b"
  by (induction vs arbitrary: b) (simp_all add: push_def)

lemma getAll_pushes_gen:
  assumes "buffer_inv b"
  shows "getAll (foldl push b vs) = last_n (size_cb b) (getAll b @ vs)"
proof (induction vs rule: rev_induct)
  case Nil
  from assms show ?case
    by (simp add: last_n_def length_getAll buffer_inv_def)
next
  case (snoc v vs)
  define b' where "b' = foldl push b vs"
  define all where "all = getAll b @ vs"
  have IH: "getAll b' = drop (length all - size_cb b) all"
    using snoc.IH by (simp add: b'_def all_def last_n_def)
  have inv: "buffer_inv b'" unfolding b'_def using assms by (rule buffer_inv_pushes)
  have sz: "size_cb b' = size_cb b" unfolding b'_def by (rule size_cb_pushes)
  have pos: "0 < size_cb b" using assms by (simp add: buffer_inv_def)
  have "count b' = length (getAll b')" using length_getAll [OF inv] by simp
  also have "\<dots> = length all - (length all - size_cb b)" by (simp add: IH)
  finally have cnt: "count b' = length all - (length all - size_cb b)" .
  have step: "getAll (push b' v) = drop (length (all @ [v]) - size_cb b) (all @ [v])"
  proof (cases "count b' < size_cb b'")
    case True
    with cnt sz have "length all < size_cb b" by arith
    with True IH inv show ?thesis
      by (simp add: getAll_push)
  next
    case False
    with cnt sz have ge: "size_cb b \<le> length all" by arith
    with pos have e: "length (all @ [v]) - size_cb b = Suc (length all - size_cb b)"
      and le: "Suc (length all - size_cb b) \<le> length all" by simp_all
    have "getAll (push b' v) = tl (drop (length all - size_cb b) all) @ [v]"
      using False IH inv by (simp add: getAll_push)
    also have "\<dots> = drop (Suc (length all - size_cb b)) all @ [v]"
      by (simp add: drop_Suc tl_drop)
    also have "\<dots> = drop (Suc (length all - size_cb b)) (all @ [v])"
      using le by simp
    finally show ?thesis using e by simp
  qed
  then show ?case by (simp add: b'_def all_def last_n_def)
qed

lemma getAll_pushes:
  assumes "new_CircularBuffer n = Inr b"
  shows "getAll (foldl push b vs) = last_n (nat n) vs"
proof -
  have "getAll b = []" "size_cb b = nat n"
    using assms by (auto simp: new_CircularBuffer_def getAll_def split: if_splits)
  with getAll_pushes_gen [OF buffer_inv_new [OF assms], of vs] show ?thesis by simp
qed

lemma stats_cong:
  assumes "getAll b' = getAll b"
  shows "getMedian b' = getMedian b" "getAverage b' = getAverage b"
    "getMin b' = getMin b" "getMax b' = getMax b"
  using assms by (simp_all add: getMedian_def getAverage_def getMin_def getMax_def)

lemma fromJSON_toJSON:
  assumes "buffer_inv b"
  shows "\<exists>b'. fromJSON (toJSON b) = Inr b' \<and> buffer_inv b' \<and> size_cb b' = size_cb b \<and> count b' = count b \<and>
           getAll b' = getAll b"
proof -
  from assms have pos: "0 < size_cb b" and le: "count b \<le> size_cb b"
    by (simp_all add: buffer_inv_def)
  obtain b0 where b0: "new_CircularBuffer (int (size_cb b)) = Inr b0"
    using pos by (simp add: new_CircularBuffer_def)
  let ?b' = "foldl push b0 (getAll b)"
  have f: "fromJSON (toJSON b) = Inr ?b'"
    by (simp add: fromJSON_def toJSON_def b0)
  have inv0: "buffer_inv b0" using b0 by (rule buffer_inv_new)
  have inv': "buffer_inv ?b'" using inv0 by (rule buffer_inv_pushes)
  have sz0: "size_cb b0 = size_cb b"
    using b0 pos by (auto simp: new_CircularBuffer_def)
  have g: "getAll ?b' = getAll b"
    using getAll_pushes [OF b0, of "getAll b"] le length_getAll [OF assms]
    by (simp add: last_n_def)
  have c: "count ?b' = count b"
    using length_getAll [OF inv'] length_getAll [OF assms] g by simp
  show ?thesis using f inv' g c sz0 by (simp add: size_cb_pushes)
qed

lemma pushes_equiv:
  assumes "buffer_inv b" "buffer_inv b'" "size_cb b' = size_cb b" "getAll b' = getAll b"
  shows "getAll (foldl push b' vs) = getAll (foldl push b vs)"
  using assms by (simp add: getAll_pushes_gen)

lemma Map_set_fresh:
  "k \<notin> fst ` set m \<Longrightarrow> Map_set m k v = m @ [(k, v)]"
  by (induction m) auto

lemma new_Map_distinct_aux:
  "distinct (map fst (acc @ es)) \<Longrightarrow>
   foldl (\<lambda>m e. Map_set m (fst e) (snd e)) acc es = acc @ es"
proof (induction es arbitrary: acc)
  case Nil
  then show ?case by simp
next
  case (Cons e es)
  from Cons.prems have "fst e \<notin> fst ` set acc" by auto
  then have "Map_set acc (fst e) (snd e) = acc @ [e]" by (simp add: Map_set_fresh)
  moreover from Cons.prems have "distinct (map fst ((acc @ [e]) @ es))" by simp
  ultimately show ?case using Cons.IH [of "acc @ [e]"] by simp
qed

lemma new_Map_distinct: "distinct (map fst es) \<Longrightarrow> new_Map es = es"
  using new_Map_distinct_aux [of "[]" es] by (simp add: new_Map_def)

lemma new_Set_distinct_aux:
  "distinct (acc @ xs) \<Longrightarrow> foldl Set_add acc xs = acc @ xs"
proof (induction xs arbitrary: acc)
  case Nil
  then show ?case by simp
next
  case (Cons x xs)
  from Cons.prems have "Set_add acc x = acc @ [x]" by (simp add: Set_add_def)
  moreover from Cons.prems have "distinct ((acc @ [x]) @ xs)" by simp
  ultimately show ?case using Cons.IH [of "acc @ [x]"] by simp
qed

lemma new_Set_distinct: "distinct xs \<Longrightarrow> new_Set xs = xs"
  using new_Set_distinct_aux [of "[]" xs] by (simp add: new_Set_def)

lemma load_save:
  assumes "state_inv (state_sm sm)"
  shows "state_sm (new_StateManager (save sm now True file) cfg) = state_sm sm"
  using assms
  by (simp add: new_StateManager_def load_def save_def or_empty_def state_inv_def
      new_Map_distinct new_Set_distinct)

lemma filter_prefix_length:
  assumes "k \<le> length s" and "\<And>i. i < k \<Longrightarrow> P (s ! i)"
  shows "k \<le> length (filter P s)"
proof -
  have "\<forall>x \<in> set (take k s). P x"
    using assms by (auto simp: in_set_conv_nth)
  then have "filter P (take k s) = take k s" by (simp add: filter_id_conv)
  moreover have "filter P s = filter P (take k s) @ filter P (drop k s)"
    by (metis append_take_drop_id filter_append)
  ultimately show ?thesis using assms(1) by simp
qed

lemma filter_suffix_length:
  assumes "\<And>i. k \<le> i \<Longrightarrow> i < length s \<Longrightarrow> P (s ! i)"
  shows "length s - k \<le> length (filter P s)"
proof -
  have "\<forall>x \<in> set (drop k s). P x"
    using assms by (auto simp: in_set_conv_nth)
  then have "filter P (drop k s) = drop k s" by (simp add: filter_id_conv)
  moreover have "filter P s = filter P (take k s) @ filter P (drop k s)"
    by (metis append_take_drop_id filter_append)
  ultimately show ?thesis by simp
qed

lemma length_filter_sort: "length (filter P (sort xs)) = length (filter P (xs::rat list))"
  by (simp add: filter_sort)

text \<open>At least half of the samples lie on either side of the median.\<close>

lemma median_splits:
  assumes "getAll b \<noteq> []"
  shows "length (getAll b) \<le> 2 * length (filter (\<lambda>x. x \<le> getMedian b) (getAll b)) \<and>
         length (getAll b) \<le> 2 * length (filter (\<lambda>x. getMedian b \<le> x) (getAll b))"
proof -
  define s where "s = sort (getAll b)"
  define n where "n = length s"
  define mid where "mid = n div 2"
  have srt: "sorted s" and len: "length (getAll b) = n" by (simp_all add: s_def n_def)
  have pos: "0 < n" using assms len by auto
  have mid_lt: "mid < n" using pos by (simp add: mid_def)
  have ne: "s \<noteq> []" using pos by (auto simp: n_def)
  show ?thesis
  proof (cases "n mod 2 = 0")
    case False
    then have m: "getMedian b = s ! mid"
      using ne by (simp add: getMedian_def Let_def s_def [symmetric] n_def [symmetric] mid_def)
    have lo: "mid + 1 \<le> length (filter (\<lambda>x. x \<le> s ! mid) s)"
    proof (rule filter_prefix_length)
      show "mid + 1 \<le> length s" using mid_lt by (simp add: n_def)
    next
      fix i assume "i < mid + 1"
      then show "s ! i \<le> s ! mid" using srt mid_lt by (simp add: sorted_nth_mono n_def)
    qed
    have hi: "length s - mid \<le> length (filter (\<lambda>x. s ! mid \<le> x) s)"
    proof (rule filter_suffix_length)
      fix i assume "mid \<le> i" "i < length s"
      then show "s ! mid \<le> s ! i" using srt by (simp add: sorted_nth_mono)
    qed
    have "n \<le> 2 * (mid + 1)" "n \<le> 2 * (n - mid)" unfolding mid_def by arith+
    with lo hi have "n \<le> 2 * length (filter (\<lambda>x. x \<le> s ! mid) s)"
      "n \<le> 2 * length (filter (\<lambda>x. s ! mid \<le> x) s)"
      by (simp_all add: n_def)
    then show ?thesis
      by (simp add: m len s_def length_filter_sort)
  next
    case True
    with pos have mid_pos: "0 < mid" and two: "n = 2 * mid" unfolding mid_def by arith+
    define a where "a = s ! (mid - 1)"
    define c where "c = s ! mid"
    have ac: "a \<le> c" unfolding a_def c_def using srt mid_lt by (simp add: sorted_nth_mono n_def)
    have m: "getMedian b = (a + c) / 2"
      using ne True
      by (simp add: getMedian_def Let_def s_def [symmetric] n_def [symmetric] mid_def a_def c_def)
    have am: "a \<le> getMedian b" and mc: "getMedian b \<le> c" using ac by (simp_all add: m)
    have lo: "mid \<le> length (filter (\<lambda>x. x \<le> getMedian b) s)"
    proof (rule filter_prefix_length)
      show "mid \<le> length s" using mid_lt by (simp add: n_def)
    next
      fix i assume "i < mid"
      then have "s ! i \<le> a" unfolding a_def using srt mid_lt
        by (simp add: sorted_nth_mono n_def)
      with am show "s ! i \<le> getMedian b" by simp
    qed
    have hi: "length s - mid \<le> length (filter (\<lambda>x. getMedian b \<le> x) s)"
    proof (rule filter_suffix_length)
      fix i assume "mid \<le> i" "i < length s"
      then have "c \<le> s ! i" unfolding c_def using srt by (simp add: sorted_nth_mono)
      with mc show "getMedian b \<le> s ! i" by simp
    qed
    from lo hi two have "n \<le> 2 * length (filter (\<lambda>x. x \<le> getMedian b) s)"
      "n \<le> 2 * length (filter (\<lambda>x. getMedian b \<le> x) s)"
      by (simp_all add: n_def)
    then show ?thesis
      by (simp add: len s_def length_filter_sort)
  qed
qed

lemma getAll_empty: "buffer_inv b \<Longrightarrow> count b = 0 \<Longrightarrow> getAll b = []"
  by (simp add: buffer_inv_def getAll_def)

text \<open>
  C8. An empty ring buffer has median, mean, minimum and maximum 0. A non-empty one has
  as median the middle element of the sorted copy of its contents when it holds an odd
  number of samples, and the average of the two middle elements when the number is even;
  at least half of the samples are at most the median and at least half are at least the
  median.
  The median of the contents [100,150,120] is 120, of [1,2,3,4] is 2.5, and of
  [100,100,105,98,102,5000] is 101, not 742.
\<close>

theorem ring_buffer_median:
  assumes "buffer_inv b"
  shows "(count b = 0 \<longrightarrow> getMedian b = 0 \<and> getAverage b = 0 \<and> getMin b = 0 \<and> getMax b = 0) \<and>
         (0 < count b \<longrightarrow>
            sorted (sort (getAll b)) \<and> length (sort (getAll b)) = count b \<and>
            getMedian b =
              (if odd (count b) then sort (getAll b) ! (count b div 2)
               else (sort (getAll b) ! (count b div 2 - 1) + sort (getAll b) ! (count b div 2)) / 2) \<and>
            count b \<le> 2 * length (filter (\<lambda>x. x \<le> getMedian b) (getAll b)) \<and>
            count b \<le> 2 * length (filter (\<lambda>x. getMedian b \<le> x) (getAll b))) \<and>
         (getAll b = [100, 150, 120] \<longrightarrow> getMedian b = 120) \<and>
         (getAll b = [1, 2, 3, 4] \<longrightarrow> getMedian b = 5 / 2) \<and>
         (getAll b = [100, 100, 105, 98, 102, 5000] \<longrightarrow> getMedian b = 101 \<and> getMedian b \<noteq> 742)"
proof (intro conjI impI)
  assume "count b = 0"
  with assms have e: "getAll b = []" by (rule getAll_empty)
  show "getMedian b = 0" by (simp add: getMedian_def e)
  show "getAverage b = 0" by (simp add: getAverage_def e)
  show "getMin b = 0" by (simp add: getMin_def e)
  show "getMax b = 0" by (simp add: getMax_def e)
next
  show "sorted (sort (getAll b))" by simp
next
  show "length (sort (getAll b)) = count b" using assms by (simp add: length_getAll)
next
  assume pos: "0 < count b"
  have len: "length (sort (getAll b)) = count b" using assms by (simp add: length_getAll)
  have "length (getAll b) = count b" using assms by (rule length_getAll)
  with pos have "getAll b \<noteq> []" by auto
  then have ne: "sort (getAll b) \<noteq> []" by (metis length_sort length_0_conv)
  show "getMedian b =
              (if odd (count b) then sort (getAll b) ! (count b div 2)
               else (sort (getAll b) ! (count b div 2 - 1) + sort (getAll b) ! (count b div 2)) / 2)"
    using len ne by (auto simp: getMedian_def Let_def odd_iff_mod_2_eq_one)
next
  assume pos: "0 < count b"
  have "length (getAll b) = count b" using assms by (rule length_getAll)
  with pos have "getAll b \<noteq> []" "length (getAll b) = count b" by auto
  with median_splits [of b]
  show "count b \<le> 2 * length (filter (\<lambda>x. x \<le> getMedian b) (getAll b))"
    "count b \<le> 2 * length (filter (\<lambda>x. getMedian b \<le> x) (getAll b))"
    by simp_all
next
  assume "getAll b = [100, 150, 120]"
  then show "getMedian b = 120" by (simp add: getMedian_def)
next
  assume "getAll b = [1, 2, 3, 4]"
  then show "getMedian b = 5 / 2" by (simp add: getMedian_def)
next
  assume a: "getAll b = [100, 100, 105, 98, 102, 5000]"
  then show "getMedian b = 101" by (simp add: getMedian_def)
  from a show "getMedian b \<noteq> 742" by (simp add: getMedian_def)
qed

theorem ring_buffer_median_witness:
  "new_CircularBuffer 3 = Inr empty3 \<and> buffer_inv empty3 \<and> count empty3 = 0 \<and>
   getMedian empty3 = 0 \<and> getAverage empty3 = 0 \<and> getMin empty3 = 0 \<and> getMax empty3 = 0 \<and>
   buffer_inv wrapped3 \<and> getAll wrapped3 = [100, 150, 120] \<and> getMedian wrapped3 = 120 \<and>
   sort (getAll wrapped3) = [100, 120, 150] \<and>
   getMedian wrapped3 = sort (getAll wrapped3) ! (count wrapped3 div 2) \<and>
   new_CircularBuffer 4 = Inr empty4 \<and>
   getMedian (foldl push empty4 [1, 2, 3, 4]) = 5 / 2 \<and>
   new_CircularBuffer 6 = Inr empty6 \<and>
   getMedian (foldl push empty6 [100, 100, 105, 98, 102, 5000]) = 101"
proof -
  have e: "buffer_inv empty3" "count empty3 = 0" "new_CircularBuffer 3 = Inr empty3"
    by code_simp+
  have w: "buffer_inv wrapped3" "getAll wrapped3 = [100, 150, 120]" "0 < count wrapped3"
    "odd (count wrapped3)" "sort (getAll wrapped3) = [100, 120, 150]"
    by code_simp+
  have f: "buffer_inv (foldl push empty4 [1, 2, 3, 4])"
    "getAll (foldl push empty4 [1, 2, 3, 4]) = [1, 2, 3, 4]"
    "new_CircularBuffer 4 = Inr empty4"
    by code_simp+
  have s: "buffer_inv (foldl push empty6 [100, 100, 105, 98, 102, 5000])"
    "getAll (foldl push empty6 [100, 100, 105, 98, 102, 5000]) = [100, 100, 105, 98, 102, 5000]"
    "new_CircularBuffer 6 = Inr empty6"
    by code_simp+
  have m0: "getMedian empty3 = 0 \<and> getAverage empty3 = 0 \<and> getMin empty3 = 0 \<and> getMax empty3 = 0"
    using ring_buffer_median [OF e(1)] e(2) by blast
  have m3: "getMedian wrapped3 = 120"
    using ring_buffer_median [OF w(1)] w(2) by blast
  have "getMedian wrapped3 =
      (if odd (count wrapped3) then sort (getAll wrapped3) ! (count wrapped3 div 2)
       else (sort (getAll wrapped3) ! (count wrapped3 div 2 - 1) +
             sort (getAll wrapped3) ! (count wrapped3 div 2)) / 2)"
    using ring_buffer_median [OF w(1)] w(3) by blast
  then have m3': "getMedian wrapped3 = sort (getAll wrapped3) ! (count wrapped3 div 2)"
    using w(4) by metis
  have m4: "getMedian (foldl push empty4 [1, 2, 3, 4]) = 5 / 2"
    using ring_buffer_median [OF f(1)] f(2) by blast
  have m6: "getMedian (foldl push empty6 [100, 100, 105, 98, 102, 5000]) = 101"
    using ring_buffer_median [OF s(1)] s(2) by blast
  from e w f s m0 m3 m3' m4 m6 show ?thesis by blast
qed

section \<open>Properties of the state manager\<close>

lemma Map_get_set: "Map_get (Map_set m k v) k' = (if k' = k then Some v else Map_get m k')"
  by (induction m) (auto simp: Map_get_def)

lemma Map_get_delete: "Map_get (Map_delete m k) k' = (if k' = k then None else Map_get m k')"
  by (induction m) (auto simp: Map_get_def Map_delete_def)

lemma keys_Map_set: "fst ` set (Map_set m k v) = insert k (fst ` set m)"
  by (induction m) auto

lemma distinct_Map_set: "distinct (map fst m) \<Longrightarrow> distinct (map fst (Map_set m k v))"
proof (induction m)
  case Nil
  then show ?case by simp
next
  case (Cons e m)
  then show ?case using keys_Map_set [of m k v] by auto
qed

lemma distinct_Map_delete: "distinct (map fst m) \<Longrightarrow> distinct (map fst (Map_delete m k))"
  by (simp add: Map_delete_def distinct_map_filter)

lemma getFailure_set_failures [simp]:
  "getFailure (set_failures sm f) k = Map_get f k"
  by (simp add: getFailure_def set_failures_def)

lemma rest_set_failures [simp]:
  "flapping (state_sm (set_failures sm f)) = flapping (state_sm sm)"
  "acknowledged (state_sm (set_failures sm f)) = acknowledged (state_sm sm)"
  "sslExpiry (state_sm (set_failures sm f)) = sslExpiry (state_sm sm)"
  "failures (state_sm (set_failures sm f)) = f"
  "config (set_failures sm f) = config sm"
  by (simp_all add: set_failures_def)

text \<open>
  C1. \<open>recordFailure\<close> on a service without a failure record creates the record with
  \<open>firstSeen = lastAlertSent = now\<close> and \<open>consecutiveFailures = 1\<close> and returns
  \<open>first_failure\<close>. On a service with a record it increments \<open>consecutiveFailures\<close>,
  replaces the error and keeps \<open>firstSeen\<close>; it returns \<open>ongoing_failure\<close> and sets
  \<open>lastAlertSent\<close> to \<open>now\<close> exactly when at least \<open>cooldownMinutes\<close> minutes (30 when
  the configuration gives none) have elapsed since \<open>lastAlertSent\<close>, and otherwise
  returns \<open>suppressed\<close> and leaves \<open>lastAlertSent\<close> as it was. The records of other
  services and the other collections are not touched.
\<close>

theorem recordFailure_contract:
  "(getFailure sm serviceId = None \<longrightarrow>
      fst (recordFailure sm serviceId err now) = first_failure \<and>
      getFailure (snd (recordFailure sm serviceId err now)) serviceId =
        Some \<lparr>firstSeen = now, lastAlertSent = now, error = err, consecutiveFailures = 1\<rparr>) \<and>
   (\<forall>r. getFailure sm serviceId = Some r \<longrightarrow>
      (\<exists>r'. getFailure (snd (recordFailure sm serviceId err now)) serviceId = Some r' \<and>
         consecutiveFailures r' = consecutiveFailures r + 1 \<and> error r' = err \<and>
         firstSeen r' = firstSeen r \<and>
         (fst (recordFailure sm serviceId err now) = ongoing_failure \<longleftrightarrow>
            (case cooldownMinutes (config sm) of
               None \<Rightarrow> 30 | Some c \<Rightarrow> if c = 0 then 30 else c) * 60000
              \<le> of_int (now - lastAlertSent r)) \<and>
         (fst (recordFailure sm serviceId err now) = ongoing_failure \<longrightarrow> lastAlertSent r' = now) \<and>
         (fst (recordFailure sm serviceId err now) \<noteq> ongoing_failure \<longrightarrow>
            fst (recordFailure sm serviceId err now) = suppressed \<and>
            lastAlertSent r' = lastAlertSent r))) \<and>
   (\<forall>other. other \<noteq> serviceId \<longrightarrow>
      getFailure (snd (recordFailure sm serviceId err now)) other = getFailure sm other) \<and>
   flapping (state_sm (snd (recordFailure sm serviceId err now))) = flapping (state_sm sm) \<and>
   acknowledged (state_sm (snd (recordFailure sm serviceId err now))) = acknowledged (state_sm sm) \<and>
   sslExpiry (state_sm (snd (recordFailure sm serviceId err now))) = sslExpiry (state_sm sm)"
  by (auto simp: recordFailure_def getFailure_def [of sm] Let_def Map_get_set js_or_def
      split: option.splits)

theorem recordFailure_contract_witness:
  "getFailure scenario_s0 ''X'' = None \<and>
   fst (recordFailure scenario_s0 ''X'' (Some ''down'') 0) = first_failure \<and>
   getFailure scenario_s1 ''X'' =
     Some \<lparr>firstSeen = 0, lastAlertSent = 0, error = Some ''down'', consecutiveFailures = 1\<rparr> \<and>
   fst (recordFailure scenario_s1 ''X'' (Some ''still down'') 300000) = suppressed \<and>
   getFailure scenario_s2 ''X'' =
     Some \<lparr>firstSeen = 0, lastAlertSent = 0, error = Some ''still down'', consecutiveFailures = 2\<rparr> \<and>
   fst (recordFailure scenario_s2 ''X'' (Some ''timeout'') 1860000) = ongoing_failure \<and>
   getFailure scenario_s3 ''X'' =
     Some \<lparr>firstSeen = 0, lastAlertSent = 1860000, error = Some ''timeout'',
           consecutiveFailures = 3\<rparr>"
proof -
  have g0: "getFailure scenario_s0 ''X'' = None" by code_simp
  have g1: "getFailure scenario_s1 ''X'' =
     Some \<lparr>firstSeen = 0, lastAlertSent = 0, error = Some ''down'', consecutiveFailures = 1\<rparr>"
    by code_simp
  have g2: "getFailure scenario_s2 ''X'' =
     Some \<lparr>firstSeen = 0, lastAlertSent = 0, error = Some ''still down'', consecutiveFailures = 2\<rparr>"
    by code_simp
  have g3: "getFailure scenario_s3 ''X'' =
     Some \<lparr>firstSeen = 0, lastAlertSent = 1860000, error = Some ''timeout'',
           consecutiveFailures = 3\<rparr>"
    by code_simp
  have c: "cooldownMinutes (config scenario_s1) = None" "cooldownMinutes (config scenario_s2) = None"
    by code_simp+
  have a0: "fst (recordFailure scenario_s0 ''X'' (Some ''down'') 0) = first_failure"
    using recordFailure_contract [of scenario_s0 "''X''" "Some ''down''" 0] g0 by blast
  have a1: "fst (recordFailure scenario_s1 ''X'' (Some ''still down'') 300000) = suppressed"
    using recordFailure_contract [of scenario_s1 "''X''" "Some ''still down''" 300000] g1 c
    by auto
  have a2: "fst (recordFailure scenario_s2 ''X'' (Some ''timeout'') 1860000) = ongoing_failure"
    using recordFailure_contract [of scenario_s2 "''X''" "Some ''timeout''" 1860000] g2 c
    by auto
  from g0 g1 g2 g3 a0 a1 a2 show ?thesis by blast
qed

text \<open>
  C7. \<open>recordRecovery\<close> on a service without a failure record returns null and leaves
  the whole state manager unchanged. On a service with a record it returns
  \<open>downtimeDuration = now - firstSeen\<close> and \<open>failuresSeen = consecutiveFailures\<close> and
  deletes the record; nothing else changes.
\<close>

theorem recordRecovery_contract:
  "(getFailure sm serviceId = None \<longrightarrow> recordRecovery sm serviceId now = (None, sm)) \<and>
   (\<forall>r. getFailure sm serviceId = Some r \<longrightarrow>
      (\<exists>info. fst (recordRecovery sm serviceId now) = Some info \<and>
         downtimeDuration info = now - firstSeen r \<and>
         failuresSeen info = consecutiveFailures r) \<and>
      getFailure (snd (recordRecovery sm serviceId now)) serviceId = None \<and>
      (\<forall>other. other \<noteq> serviceId \<longrightarrow>
         getFailure (snd (recordRecovery sm serviceId now)) other = getFailure sm other) \<and>
      flapping (state_sm (snd (recordRecovery sm serviceId now))) = flapping (state_sm sm) \<and>
      acknowledged (state_sm (snd (recordRecovery sm serviceId now))) = acknowledged (state_sm sm) \<and>
      sslExpiry (state_sm (snd (recordRecovery sm serviceId now))) = sslExpiry (state_sm sm))"
  by (auto simp: recordRecovery_def getFailure_def [of sm] Let_def Map_get_delete)


theorem recordRecovery_contract_witness:
  "getFailure scenario_s0 ''X'' = None \<and>
   recordRecovery scenario_s0 ''X'' 1920000 = (None, scenario_s0) \<and>
   getFailure scenario_s3 ''X'' =
     Some \<lparr>firstSeen = 0, lastAlertSent = 1860000, error = Some ''timeout'',
           consecutiveFailures = 3\<rparr> \<and>
   fst (recordRecovery scenario_s3 ''X'' 1920000) =
     Some \<lparr>downtimeDuration = 1920000, failuresSeen = 3, firstSeen_info = 0\<rparr> \<and>
   getFailure (snd (recordRecovery scenario_s3 ''X'' 1920000)) ''X'' = None"
proof -
  have g0: "getFailure scenario_s0 ''X'' = None" by code_simp
  have g3: "getFailure scenario_s3 ''X'' =
     Some \<lparr>firstSeen = 0, lastAlertSent = 1860000, error = Some ''timeout'',
           consecutiveFailures = 3\<rparr>"
    by code_simp
  have i: "fst (recordRecovery scenario_s3 ''X'' 1920000) =
     Some \<lparr>downtimeDuration = 1920000, failuresSeen = 3, firstSeen_info = 0\<rparr>"
    by code_simp
  have r0: "recordRecovery scenario_s0 ''X'' 1920000 = (None, scenario_s0)"
    using recordRecovery_contract [of scenario_s0 "''X''" 1920000] g0 by blast
  have r3: "getFailure (snd (recordRecovery scenario_s3 ''X'' 1920000)) ''X'' = None"
    using recordRecovery_contract [of scenario_s3 "''X''" 1920000] g3 by blast
  from g0 g3 i r0 r3 show ?thesis by blast
qed

lemma state_inv_recordFailure:
  "state_inv (state_sm sm) \<Longrightarrow> state_inv (state_sm (snd (recordFailure sm serviceId err now)))"
  by (auto simp: recordFailure_def state_inv_def Let_def distinct_Map_set split: option.splits)

lemma state_inv_recordRecovery:
  "state_inv (state_sm sm) \<Longrightarrow> state_inv (state_sm (snd (recordRecovery sm serviceId now)))"
  by (auto simp: recordRecovery_def state_inv_def Let_def distinct_Map_delete split: option.splits)

lemma state_inv_apply_call:
  "state_inv (state_sm sm) \<Longrightarrow> state_inv (state_sm (apply_call sm c))"
  by (cases c) (simp_all add: state_inv_recordFailure state_inv_recordRecovery)

lemma state_inv_run_calls:
  "state_inv (state_sm sm) \<Longrightarrow> state_inv (state_sm (run_calls sm calls))"
  unfolding run_calls_def
  by (induction calls arbitrary: sm) (simp_all add: state_inv_apply_call)

lemma state_inv_fresh: "state_inv (state_sm (new_StateManager Missing cfg))"
  by (simp add: new_StateManager_def load_def empty_State_def state_inv_def)

lemma getFailure_fresh: "getFailure (new_StateManager Missing cfg) serviceId = None"
  by (simp add: new_StateManager_def load_def empty_State_def getFailure_def Map_get_def)

lemma at_most_one_entry:
  "distinct (map fst m) \<Longrightarrow> length (filter (\<lambda>e. fst e = k) m) \<le> 1"
proof (induction m)
  case Nil
  then show ?case by simp
next
  case (Cons e m)
  show ?case
  proof (cases "fst e = k")
    case True
    with Cons.prems have "k \<notin> fst ` set m" by auto
    then have "filter (\<lambda>e. fst e = k) m = []" by (auto simp: filter_empty_conv)
    with True show ?thesis by simp
  next
    case False
    with Cons show ?thesis by simp
  qed
qed

lemma getFailure_apply_call:
  "getFailure (apply_call sm c) serviceId \<noteq> None \<longleftrightarrow>
     (if call_id c = serviceId then is_failure c else getFailure sm serviceId \<noteq> None)"
  by (cases c)
     (auto simp: recordFailure_def recordRecovery_def getFailure_def [of sm] Let_def
        Map_get_set Map_get_delete split: option.splits)

lemma last_call_is_failure_snoc:
  "last_call_is_failure serviceId (calls @ [c]) =
     (if call_id c = serviceId then is_failure c else last_call_is_failure serviceId calls)"
  by (simp add: last_call_is_failure_def)

lemma getFailure_run_calls:
  "getFailure sm serviceId = None \<Longrightarrow>
   getFailure (run_calls sm calls) serviceId \<noteq> None \<longleftrightarrow> last_call_is_failure serviceId calls"
proof (induction calls rule: rev_induct)
  case Nil
  then show ?case by (simp add: run_calls_def last_call_is_failure_def)
next
  case (snoc c calls)
  have "run_calls sm (calls @ [c]) = apply_call (run_calls sm calls) c"
    by (simp add: run_calls_def)
  with snoc show ?case
    by (simp only: getFailure_apply_call last_call_is_failure_snoc)
qed

text \<open>
  C2. After any finite sequence of \<open>recordFailure\<close> and \<open>recordRecovery\<close> calls on a
  fresh state manager, a service has a failure record exactly when the most recent call
  for that service was a \<open>recordFailure\<close>; and after every prefix of the sequence the
  failures map holds at most one record for the service.
\<close>

theorem failure_record_existence:
  "(getFailure (run_calls (new_StateManager Missing cfg) calls) serviceId \<noteq> None \<longleftrightarrow>
      last_call_is_failure serviceId calls) \<and>
   (\<forall>n. length (filter (\<lambda>e. fst e = serviceId)
          (failures (state_sm (run_calls (new_StateManager Missing cfg) (take n calls))))) \<le> 1)"
proof
  show "getFailure (run_calls (new_StateManager Missing cfg) calls) serviceId \<noteq> None \<longleftrightarrow>
      last_call_is_failure serviceId calls"
    by (rule getFailure_run_calls) (rule getFailure_fresh)
next
  show "\<forall>n. length (filter (\<lambda>e. fst e = serviceId)
          (failures (state_sm (run_calls (new_StateManager Missing cfg) (take n calls))))) \<le> 1"
  proof
    fix n
    have "state_inv (state_sm (run_calls (new_StateManager Missing cfg) (take n calls)))"
      by (rule state_inv_run_calls) (rule state_inv_fresh)
    then have "distinct (map fst
          (failures (state_sm (run_calls (new_StateManager Missing cfg) (take n calls)))))"
      by (simp add: state_inv_def)
    then show "length (filter (\<lambda>e. fst e = serviceId)
          (failures (state_sm (run_calls (new_StateManager Missing cfg) (take n calls))))) \<le> 1"
      by (rule at_most_one_entry)
  qed
qed

theorem failure_record_existence_witness:
  "last_call_is_failure ''X'' scenario_calls \<and>
   getFailure (run_calls (new_StateManager Missing default_alerts) scenario_calls) ''X'' \<noteq> None \<and>
   \<not> last_call_is_failure ''Y'' scenario_calls \<and>
   getFailure (run_calls (new_StateManager Missing default_alerts) scenario_calls) ''Y'' = None \<and>
   \<not> last_call_is_failure ''Z'' scenario_calls \<and>
   getFailure (run_calls (new_StateManager Missing default_alerts) scenario_calls) ''Z'' = None \<and>
   length (filter (\<lambda>e. fst e = ''X'')
     (failures (state_sm (run_calls (new_StateManager Missing default_alerts)
        (take 4 scenario_calls))))) \<le> 1"
proof -
  have l: "last_call_is_failure ''X'' scenario_calls" "\<not> last_call_is_failure ''Y'' scenario_calls"
    "\<not> last_call_is_failure ''Z'' scenario_calls"
    by code_simp+
  note failure_record_existence [of default_alerts scenario_calls "''X''"]
    failure_record_existence [of default_alerts scenario_calls "''Y''"]
    failure_record_existence [of default_alerts scenario_calls "''Z''"]
  with l show ?thesis by blast
qed

section \<open>Serialization\<close>

lemma distinct_new_Map_aux:
  "distinct (map fst acc) \<Longrightarrow>
   distinct (map fst (foldl (\<lambda>m e. Map_set m (fst e) (snd e)) acc es))"
  by (induction es arbitrary: acc) (simp_all add: distinct_Map_set)

lemma distinct_new_Map: "distinct (map fst (new_Map es))"
  by (simp add: new_Map_def distinct_new_Map_aux)

lemma distinct_Set_add: "distinct s \<Longrightarrow> distinct (Set_add s x)"
  by (simp add: Set_add_def)

lemma distinct_new_Set_aux: "distinct acc \<Longrightarrow> distinct (foldl Set_add acc xs)"
  by (induction xs arbitrary: acc) (simp_all add: distinct_Set_add)

lemma distinct_new_Set: "distinct (new_Set xs)"
  by (simp add: new_Set_def distinct_new_Set_aux)

lemma state_inv_load:
  "state_inv (state_sm sm) \<Longrightarrow> state_inv (state_sm (load sm file))"
  by (cases "file")
     (simp_all add: load_def state_inv_def distinct_new_Map distinct_new_Set)

lemma state_inv_new_StateManager: "state_inv (state_sm (new_StateManager file cfg))"
  unfolding new_StateManager_def
  by (rule state_inv_load) (simp add: state_inv_def empty_State_def)

lemma state_inv_recordStateChange:
  "state_inv (state_sm sm) \<Longrightarrow>
   state_inv (state_sm (snd (recordStateChange sm serviceId newState now)))"
  by (simp add: recordStateChange_def set_flapping_def state_inv_def Let_def distinct_Map_set)

lemma state_inv_acknowledge:
  "state_inv (state_sm sm) \<Longrightarrow> state_inv (state_sm (acknowledge sm serviceId))"
  by (simp add: acknowledge_def state_inv_def distinct_Set_add)

lemma state_inv_unacknowledge:
  "state_inv (state_sm sm) \<Longrightarrow> state_inv (state_sm (unacknowledge sm serviceId))"
  by (simp add: unacknowledge_def state_inv_def Set_delete_def)

lemma state_inv_updateSSLExpiry:
  "state_inv (state_sm sm) \<Longrightarrow> state_inv (state_sm (updateSSLExpiry sm domain expiry))"
  by (simp add: updateSSLExpiry_def state_inv_def distinct_Map_set)

lemma state_inv_clearFlappingHistory:
  "state_inv (state_sm sm) \<Longrightarrow> state_inv (state_sm (clearFlappingHistory sm serviceId))"
  by (simp add: clearFlappingHistory_def set_flapping_def state_inv_def distinct_Map_delete)

lemma buffer_inv_clear: "buffer_inv b \<Longrightarrow> buffer_inv (clear b)"
  by (simp add: buffer_inv_def clear_def)

text \<open>
  C9. For every ring buffer (any capacity, any number of pushes, also after wraparound),
  \<open>fromJSON (toJSON b)\<close> succeeds and gives a buffer of the same capacity with the same
  \<open>getAll\<close>, length, median, mean, minimum and maximum, which also behaves like \<open>b\<close>
  under every further sequence of pushes. For every state of the state manager, \<open>save\<close>
  followed by the construction of a fresh state manager that loads the written file
  gives the same failures, transition logs, acknowledged set and TLS-expiry cache.
\<close>

theorem serialization_round_trip:
  "(buffer_inv b \<longrightarrow>
      (\<exists>b'. fromJSON (toJSON b) = Inr b' \<and> size_cb b' = size_cb b \<and>
         getAll b' = getAll b \<and> length_cb b' = length_cb b \<and>
         getMedian b' = getMedian b \<and> getAverage b' = getAverage b \<and>
         getMin b' = getMin b \<and> getMax b' = getMax b \<and>
         (\<forall>vs. getAll (foldl push b' vs) = getAll (foldl push b vs)))) \<and>
   (state_inv (state_sm sm) \<longrightarrow>
      state_sm (new_StateManager (save sm now True file) cfg) = state_sm sm)"
proof (intro conjI impI)
  assume inv: "buffer_inv b"
  from fromJSON_toJSON [OF inv] obtain b' where b':
    "fromJSON (toJSON b) = Inr b'" "buffer_inv b'" "size_cb b' = size_cb b"
    "count b' = count b" "getAll b' = getAll b"
    by blast
  have "\<forall>vs. getAll (foldl push b' vs) = getAll (foldl push b vs)"
    using pushes_equiv [OF inv b'(2) b'(3) b'(5)] by blast
  with b' stats_cong [OF b'(5)]
  show "\<exists>b'. fromJSON (toJSON b) = Inr b' \<and> size_cb b' = size_cb b \<and>
         getAll b' = getAll b \<and> length_cb b' = length_cb b \<and>
         getMedian b' = getMedian b \<and> getAverage b' = getAverage b \<and>
         getMin b' = getMin b \<and> getMax b' = getMax b \<and>
         (\<forall>vs. getAll (foldl push b' vs) = getAll (foldl push b vs))"
    by (auto simp: length_cb_def)
next
  assume "state_inv (state_sm sm)"
  then show "state_sm (new_StateManager (save sm now True file) cfg) = state_sm sm"
    by (rule load_save)
qed

theorem serialization_round_trip_witness:
  "buffer_inv wrapped3 \<and> index wrapped3 = 1 \<and>
   fromJSON (toJSON wrapped3) = Inr \<lparr>size_cb = 3, buffer = [100, 150, 120], index = 0, count = 3\<rparr> \<and>
   getAll \<lparr>size_cb = 3, buffer = [100, 150, 120], index = 0, count = 3\<rparr> = getAll wrapped3 \<and>
   getMedian \<lparr>size_cb = 3, buffer = [100, 150, 120], index = 0, count = 3\<rparr> = getMedian wrapped3 \<and>
   state_inv (state_sm busy_state) \<and>
   state_sm (new_StateManager (save busy_state 2000 True Missing) default_alerts) = state_sm busy_state \<and>
   failures (state_sm busy_state) =
     [(''docker:web'', \<lparr>firstSeen = 1000, lastAlertSent = 1000, error = Some ''exited'',
         consecutiveFailures = 1\<rparr>)] \<and>
   flapping (state_sm busy_state) = [(''docker:web'', [\<lparr>time = 1000, state = unhealthy_state\<rparr>])] \<and>
   acknowledged (state_sm busy_state) = [''pm2:worker''] \<and>
   sslExpiry (state_sm busy_state) = [(''example.org'', ''2027-01-01T00:00:00.000Z'')]"
proof -
  have b: "buffer_inv wrapped3" "index wrapped3 = 1"
    "fromJSON (toJSON wrapped3) = Inr \<lparr>size_cb = 3, buffer = [100, 150, 120], index = 0, count = 3\<rparr>"
    by code_simp+
  have s: "state_inv (state_sm busy_state)"
    "failures (state_sm busy_state) =
     [(''docker:web'', \<lparr>firstSeen = 1000, lastAlertSent = 1000, error = Some ''exited'',
         consecutiveFailures = 1\<rparr>)]"
    "flapping (state_sm busy_state) = [(''docker:web'', [\<lparr>time = 1000, state = unhealthy_state\<rparr>])]"
    "acknowledged (state_sm busy_state) = [''pm2:worker'']"
    "sslExpiry (state_sm busy_state) = [(''example.org'', ''2027-01-01T00:00:00.000Z'')]"
    by code_simp+
  note rt = serialization_round_trip [of wrapped3 busy_state 2000 Missing default_alerts]
  from rt b(1) b(3) have g: 
    "getAll \<lparr>size_cb = 3, buffer = [100, 150, 120], index = 0, count = 3\<rparr> = getAll wrapped3"
    "getMedian \<lparr>size_cb = 3, buffer = [100, 150, 120], index = 0, count = 3\<rparr> = getMedian wrapped3"
    by auto
  from rt s(1) have l:
    "state_sm (new_StateManager (save busy_state 2000 True Missing) default_alerts) = state_sm busy_state"
    by blast
  from b s g l show ?thesis by blast
qed

section \<open>Properties of flap detection\<close>

lemma isFlapping_iff:
  "isFlapping sm serviceId now \<longleftrightarrow>
     3 \<le> length (or_empty (Map_get (flapping (state_sm sm)) serviceId)) \<and>
     js_or (flappingThreshold (config sm)) 3 \<le> of_nat (length (recentTransitions sm serviceId now))"
  by (auto simp: isFlapping_def recentTransitions_def Let_def)

lemma isFlapping_threshold_above_two:
  assumes "2 < js_or (flappingThreshold (config sm)) 3"
  shows "isFlapping sm serviceId now \<longleftrightarrow>
     js_or (flappingThreshold (config sm)) 3 \<le> of_nat (length (recentTransitions sm serviceId now))"
proof -
  have le: "length (recentTransitions sm serviceId now)
      \<le> length (or_empty (Map_get (flapping (state_sm sm)) serviceId))"
    by (simp add: recentTransitions_def)
  show ?thesis
  proof (cases "3 \<le> length (or_empty (Map_get (flapping (state_sm sm)) serviceId))")
    case True
    then show ?thesis by (simp add: isFlapping_iff)
  next
    case False
    with le have "length (recentTransitions sm serviceId now) \<le> 2" by simp
    then have "(of_nat (length (recentTransitions sm serviceId now)) :: rat) \<le> 2"
      by (metis of_nat_le_iff of_nat_numeral)
    with assms False show ?thesis by (simp add: isFlapping_iff)
  qed
qed

lemma isFlapping_defaults:
  "isFlapping (three_flips default_alerts) ''svc'' 180000 \<and>
   \<not> isFlapping (two_flips default_alerts) ''svc'' 180000"
  by code_simp

text \<open>
  C3. The claim: for every configuration, \<open>isFlapping\<close> holds exactly when at least
  \<open>flappingThreshold\<close> transitions of the service lie inside the trailing window. With
  \<open>flappingThreshold = 2\<close>, which the configuration schema accepts, and two transitions
  one and two minutes old, both transitions are inside the ten-minute window and
  \<open>getFlappingInfo\<close> counts them, but \<open>isFlapping\<close> is false: it returns false for
  every service with fewer than three stored transitions, whatever the threshold.
\<close>

theorem isFlapping_threshold_two:
  "flappingThreshold (config (two_flips threshold2_alerts)) = Some 2 \<and>
   length (recentTransitions (two_flips threshold2_alerts) ''svc'' 120000) = 2 \<and>
   transitionCount (getFlappingInfo (two_flips threshold2_alerts) ''svc'' 120000) = 2 \<and>
   isFlapping (two_flips threshold2_alerts) ''svc'' 120000 = False"
  by code_simp

section \<open>Properties of the monitor\<close>

lemma sent_send: "notifier m = Some calls \<Longrightarrow> sent (send m n) = calls @ [n]"
  by (simp add: sent_def send_def or_empty_def)

text \<open>
  C4, as stated, fails. For the acknowledged service \<open>http:api\<close> an unhealthy result
  leaves no failure record and no transition, where the same result on a monitor without
  the acknowledgement records the failure; and \<open>checkEndpoint\<close> sends a
  performance-anomaly alert for the acknowledged service.
\<close>

theorem acknowledged_counterexample:
  "isAcknowledged (stateManager acked_monitor) ''http:api'' \<and>
   \<not> healthy down_result \<and>
   getFailure (stateManager (handleCheckResult acked_monitor ''http:api'' down_result 1000))
     ''http:api'' = None \<and>
   flapping (state_sm (stateManager (handleCheckResult acked_monitor ''http:api'' down_result 1000)))
     = [] \<and>
   getFailure
     (stateManager (handleCheckResult (fresh_monitor default_alerts) ''http:api'' down_result 1000))
     ''http:api'' =
     Some \<lparr>firstSeen = 1000, lastAlertSent = 1000, error = Some ''Connection refused'',
           consecutiveFailures = 1\<rparr> \<and>
   isAcknowledged (stateManager acked_warm_monitor) ''http:api'' \<and>
   sent acked_warm_monitor = [] \<and>
   map is_anomaly_alert (sent (checkEndpoint acked_warm_monitor ''api'' (Some (up_result 400)) 1000))
     = [True]"
  by code_simp

text \<open>
  C4, amended. For every check result whose service is acknowledged,
  \<open>handleCheckResult\<close> returns at once: the monitor, and with it every collection of the
  state manager and the list of notifier calls, is unchanged. \<open>checkEndpoint\<close> for an
  acknowledged endpoint leaves the state manager unchanged, and no failure, recovery,
  flapping, SSL or resource notification is among the notifier calls it adds.
\<close>

theorem acknowledged_skipped:
  "(isAcknowledged (stateManager m) serviceId \<longrightarrow>
      handleCheckResult m serviceId result now = m) \<and>
   (isAcknowledged (stateManager m) (''http:'' @ url) \<longrightarrow>
      stateManager (checkEndpoint m url outcome now) = stateManager m \<and>
      (\<exists>new. sent (checkEndpoint m url outcome now) = sent m @ new \<and>
         list_all is_anomaly_alert new))"
proof (intro conjI impI)
  assume "isAcknowledged (stateManager m) serviceId"
  then show "handleCheckResult m serviceId result now = m"
    by (simp add: handleCheckResult_def)
next
  assume a: "isAcknowledged (stateManager m) (''http:'' @ url)"
  have h: "\<And>m' r. stateManager m' = stateManager m \<Longrightarrow>
      handleCheckResult m' (''http:'' @ url) r now = m'"
    using a by (simp add: handleCheckResult_def)
  show "stateManager (checkEndpoint m url outcome now) = stateManager m"
    using h
    by (auto simp: checkEndpoint_def Let_def handleAnomaly_def send_def checkAnomaly_def
        split: option.splits sum.splits prod.splits)
next
  assume a: "isAcknowledged (stateManager m) (''http:'' @ url)"
  have h: "\<And>m' r. stateManager m' = stateManager m \<Longrightarrow>
      handleCheckResult m' (''http:'' @ url) r now = m'"
    using a by (simp add: handleCheckResult_def)
  show "\<exists>new. sent (checkEndpoint m url outcome now) = sent m @ new \<and>
         list_all is_anomaly_alert new"
  proof (cases "notifier m")
    case None
    then have "sent (checkEndpoint m url outcome now) = sent m @ []"
      using h
      by (auto simp: checkEndpoint_def Let_def handleAnomaly_def send_def sent_def
          split: option.splits sum.splits prod.splits)
    then show ?thesis by (intro exI [of _ "[]"]) simp
  next
    case (Some calls)
    then have "sent (checkEndpoint m url outcome now) = sent m @ [] \<or>
       (\<exists>x. sent (checkEndpoint m url outcome now) = sent m @ [AnomalyAlert (''http:'' @ url) x])"
      using h
      by (auto simp: checkEndpoint_def Let_def handleAnomaly_def send_def sent_def or_empty_def
          split: option.splits sum.splits prod.splits)
    then show ?thesis by (auto intro: exI [of _ "[]"])
  qed
qed

theorem acknowledged_skipped_witness:
  "isAcknowledged (stateManager acked_monitor) ''http:api'' \<and>
   handleCheckResult acked_monitor ''http:api'' down_result 1000 = acked_monitor \<and>
   sent (handleCheckResult acked_monitor ''http:api'' down_result 1000) = [] \<and>
   isAcknowledged (stateManager acked_warm_monitor) (''http:'' @ ''api'') \<and>
   stateManager (checkEndpoint acked_warm_monitor ''api'' (Some (up_result 400)) 1000)
     = stateManager acked_warm_monitor"
proof -
  have a: "isAcknowledged (stateManager acked_monitor) ''http:api''"
    "isAcknowledged (stateManager acked_warm_monitor) (''http:'' @ ''api'')"
    "sent acked_monitor = []"
    by code_simp+
  note t1 = acknowledged_skipped [of acked_monitor "''http:api''" down_result 1000 "''api''" None]
  note t2 = acknowledged_skipped [of acked_warm_monitor "''http:api''" down_result 1000 "''api''"
      "Some (up_result 400)"]
  from t1 a(1) have e: "handleCheckResult acked_monitor ''http:api'' down_result 1000 = acked_monitor"
    by blast
  from t2 a(2) have s: "stateManager (checkEndpoint acked_warm_monitor ''api'' (Some (up_result 400)) 1000)
     = stateManager acked_warm_monitor" by blast
  from a e s show ?thesis by simp
qed

lemma is_down_alert_down_alert: "is_down_alert (down_alert serviceId a)"
  by (simp add: down_alert_def)

lemma Action_cases: "a = first_failure \<or> a = ongoing_failure \<or> a = suppressed"
  by (cases a) simp_all

lemma handleFailure_sent:
  assumes "notifier m = Some calls"
  shows "stateManager (handleFailure m serviceId result now)
           = snd (recordFailure (stateManager m) serviceId (error_result result) now) \<and>
         sent (handleFailure m serviceId result now) =
           calls @
           (if isFlapping (snd (recordFailure (stateManager m) serviceId (error_result result) now))
                 serviceId now
            then [FlappingAlert serviceId
                   (getFlappingInfo
                      (snd (recordFailure (stateManager m) serviceId (error_result result) now))
                      serviceId now)]
            else if fst (recordFailure (stateManager m) serviceId (error_result result) now)
                      = suppressed then []
            else [down_alert serviceId
                   (fst (recordFailure (stateManager m) serviceId (error_result result) now))])"
proof -
  obtain a sm1 where r: "recordFailure (stateManager m) serviceId (error_result result) now = (a, sm1)"
    by (cases "recordFailure (stateManager m) serviceId (error_result result) now")
  show ?thesis
    using assms Action_cases [of a]
    by (auto simp: handleFailure_def r send_def sent_def or_empty_def down_alert_def)
qed

text \<open>
  C5. For an unhealthy result of a service that is not acknowledged, on a monitor with a
  notifier, \<open>handleCheckResult\<close> calls \<open>recordFailure\<close> (after \<open>recordStateChange\<close> when
  the service had no failure record). If the service is then flapping, the notifier
  receives exactly one call, the flapping alert, and no failure alert. If it is not
  flapping, the notifier receives exactly one down alert when the action is
  \<open>first_failure\<close> or \<open>ongoing_failure\<close>, and no call when the action is \<open>suppressed\<close>.
\<close>

theorem flapping_replaces_failure_alert:
  assumes "\<not> isAcknowledged (stateManager m) serviceId"
    and "\<not> healthy result"
    and "notifier m = Some calls"
  shows "let sm0 = (if getFailure (stateManager m) serviceId = None
                    then snd (recordStateChange (stateManager m) serviceId unhealthy_state now)
                    else stateManager m);
             alertAction = fst (recordFailure sm0 serviceId (error_result result) now);
             sm1 = snd (recordFailure sm0 serviceId (error_result result) now);
             m' = handleCheckResult m serviceId result now
         in stateManager m' = sm1 \<and>
            (isFlapping sm1 serviceId now \<longrightarrow>
               sent m' = calls @ [FlappingAlert serviceId (getFlappingInfo sm1 serviceId now)]) \<and>
            (\<not> isFlapping sm1 serviceId now \<longrightarrow>
               (alertAction = first_failure \<or> alertAction = ongoing_failure \<longrightarrow>
                  sent m' = calls @ [down_alert serviceId alertAction] \<and>
                  is_down_alert (down_alert serviceId alertAction)) \<and>
               (alertAction = suppressed \<longrightarrow> sent m' = calls))"
proof -
  define m1 where "m1 = (if getFailure (stateManager m) serviceId = None
      then m\<lparr>stateManager := snd (recordStateChange (stateManager m) serviceId unhealthy_state now)\<rparr>
      else m)"
  have n1: "notifier m1 = Some calls" using assms(3) by (simp add: m1_def)
  have h: "handleCheckResult m serviceId result now = handleFailure m1 serviceId result now"
    using assms(1,2) by (auto simp: handleCheckResult_def m1_def Let_def)
  have s1: "stateManager m1 = (if getFailure (stateManager m) serviceId = None
                    then snd (recordStateChange (stateManager m) serviceId unhealthy_state now)
                    else stateManager m)"
    by (simp add: m1_def)
  show ?thesis
    using handleFailure_sent [OF n1, of serviceId result now] Action_cases
    unfolding Let_def h s1 [symmetric]
    by (auto simp: is_down_alert_down_alert)
qed

theorem flapping_replaces_failure_alert_witness:
  "\<not> isAcknowledged (stateManager flapping_monitor) ''svc'' \<and> \<not> healthy down_result \<and>
   notifier flapping_monitor = Some [] \<and>
   map is_down_alert (sent (handleCheckResult flapping_monitor ''svc'' down_result 180000)) = [False] \<and>
   sent (handleCheckResult flapping_monitor ''svc'' down_result 180000) =
     [FlappingAlert ''svc''
        (getFlappingInfo (stateManager (handleCheckResult flapping_monitor ''svc'' down_result 180000))
           ''svc'' 180000)] \<and>
   transitionCount
     (getFlappingInfo (stateManager (handleCheckResult flapping_monitor ''svc'' down_result 180000))
        ''svc'' 180000) = 4 \<and>
   sent (handleCheckResult (fresh_monitor default_alerts) ''svc'' down_result 0) =
     [FailureAlert ''svc'' first_failure] \<and>
   sent (handleCheckResult (handleCheckResult (fresh_monitor default_alerts) ''svc'' down_result 0)
           ''svc'' down_result 300000) =
     [FailureAlert ''svc'' first_failure]"
proof -
  let ?m1 = "handleCheckResult (fresh_monitor default_alerts) ''svc'' down_result 0"
  have f: "\<not> isAcknowledged (stateManager flapping_monitor) ''svc''" "\<not> healthy down_result"
    "notifier flapping_monitor = Some []"
    by code_simp+
  have ff: "isFlapping
      (snd (recordFailure
         (if getFailure (stateManager flapping_monitor) ''svc'' = None
          then snd (recordStateChange (stateManager flapping_monitor) ''svc'' unhealthy_state 180000)
          else stateManager flapping_monitor)
         ''svc'' (error_result down_result) 180000))
      ''svc'' 180000"
    by code_simp
  have tc: "transitionCount
     (getFlappingInfo (stateManager (handleCheckResult flapping_monitor ''svc'' down_result 180000))
        ''svc'' 180000) = 4"
    by code_simp
  from flapping_replaces_failure_alert [OF f, of 180000, unfolded Let_def] ff
  have s1: "sent (handleCheckResult flapping_monitor ''svc'' down_result 180000) =
     [FlappingAlert ''svc''
        (getFlappingInfo (stateManager (handleCheckResult flapping_monitor ''svc'' down_result 180000))
           ''svc'' 180000)]"
    by simp
  then have s1': "map is_down_alert
      (sent (handleCheckResult flapping_monitor ''svc'' down_result 180000)) = [False]"
    by simp
  have g: "\<not> isAcknowledged (stateManager (fresh_monitor default_alerts)) ''svc''"
    "notifier (fresh_monitor default_alerts) = Some []"
    by code_simp+
  have g1: "\<not> isFlapping
      (snd (recordFailure
         (if getFailure (stateManager (fresh_monitor default_alerts)) ''svc'' = None
          then snd (recordStateChange (stateManager (fresh_monitor default_alerts)) ''svc''
                      unhealthy_state 0)
          else stateManager (fresh_monitor default_alerts))
         ''svc'' (error_result down_result) 0))
      ''svc'' 0"
    "fst (recordFailure
         (if getFailure (stateManager (fresh_monitor default_alerts)) ''svc'' = None
          then snd (recordStateChange (stateManager (fresh_monitor default_alerts)) ''svc''
                      unhealthy_state 0)
          else stateManager (fresh_monitor default_alerts))
         ''svc'' (error_result down_result) 0) = first_failure"
    "down_alert ''svc'' first_failure = FailureAlert ''svc'' first_failure"
    by code_simp+
  from flapping_replaces_failure_alert [OF g(1) f(2) g(2), of 0, unfolded Let_def] g1
  have s2: "sent ?m1 = [FailureAlert ''svc'' first_failure]"
    by simp
  have h: "\<not> isAcknowledged (stateManager ?m1) ''svc''"
    "notifier ?m1 = Some [FailureAlert ''svc'' first_failure]"
    by code_simp+
  have h1: "\<not> isFlapping
      (snd (recordFailure
         (if getFailure (stateManager ?m1) ''svc'' = None
          then snd (recordStateChange (stateManager ?m1) ''svc'' unhealthy_state 300000)
          else stateManager ?m1)
         ''svc'' (error_result down_result) 300000))
      ''svc'' 300000"
    "fst (recordFailure
         (if getFailure (stateManager ?m1) ''svc'' = None
          then snd (recordStateChange (stateManager ?m1) ''svc'' unhealthy_state 300000)
          else stateManager ?m1)
         ''svc'' (error_result down_result) 300000) = suppressed"
    by code_simp+
  from flapping_replaces_failure_alert [OF h(1) f(2) h(2), of 300000, unfolded Let_def] h1
  have s3: "sent (handleCheckResult ?m1 ''svc'' down_result 300000) =
     [FailureAlert ''svc'' first_failure]"
    by simp
  from f tc s1 s1' s2 s3 show ?thesis by blast
qed

section \<open>Properties of the anomaly detector\<close>

lemma list_all_Map_set:
  "list_all P m \<Longrightarrow> P (k, v) \<Longrightarrow> list_all P (Map_set m k v)"
  by (induction m) auto

lemma list_all_Map_get:
  "list_all P m \<Longrightarrow> Map_get m k = Some v \<Longrightarrow> P (k, v)"
  by (auto simp: Map_get_def list_all_iff dest: map_of_SomeD)

lemma count_push: "count b \<le> size_cb b \<Longrightarrow> count (push b v) = min (count b + 1) (size_cb b)"
  by (simp add: push_def)

lemma size_cb_push: "size_cb (push b v) = size_cb b"
  by (simp add: push_def)

lemma recordResponseTime_step:
  assumes "enabled d" "0 < sampleSize d" "detector_inv d"
  shows "\<exists>d'. recordResponseTime d serviceId t = Inr d' \<and> enabled d' \<and>
           sampleSize d' = sampleSize d \<and> multiplier d' = multiplier d \<and> detector_inv d' \<and>
           (\<forall>other. samplesCollected d' other =
              (if other = serviceId
               then min (samplesCollected d serviceId + 1) (nat (sampleSize d))
               else samplesCollected d other))"
proof (cases "Map_get (responseTimes d) serviceId")
  case None
  obtain b0 where b0: "new_CircularBuffer (sampleSize d) = Inr b0"
    using assms(2) by (simp add: new_CircularBuffer_def)
  have i0: "buffer_inv b0" using b0 by (rule buffer_inv_new)
  have z0: "size_cb b0 = nat (sampleSize d)" "count b0 = 0"
    using b0 assms(2) by (auto simp: new_CircularBuffer_def)
  let ?d' = "d\<lparr>responseTimes := Map_set (responseTimes d) serviceId (push b0 t)\<rparr>"
  have r: "recordResponseTime d serviceId t = Inr ?d'"
    using assms(1) None b0 by (simp add: recordResponseTime_def)
  have p: "buffer_inv (push b0 t)" "int (size_cb (push b0 t)) = sampleSize d"
    "count (push b0 t) = min 1 (nat (sampleSize d))"
    using i0 z0 assms(2) by (simp_all add: buffer_inv_push size_cb_push count_push)
  have inv: "detector_inv ?d'"
    using assms(3) p by (simp add: detector_inv_def distinct_Map_set list_all_Map_set)
  show ?thesis
    using r inv assms(1) None p(3)
    by (auto simp: samplesCollected_def Map_get_set length_cb_def)
next
  case (Some b)
  have pb: "buffer_inv b \<and> int (size_cb b) = sampleSize d"
    using list_all_Map_get [OF _ Some, of "\<lambda>e. buffer_inv (snd e) \<and> int (size_cb (snd e)) = sampleSize d"]
      assms(3) by (simp add: detector_inv_def)
  then have le: "count b \<le> size_cb b" and sz: "size_cb b = nat (sampleSize d)"
    by (auto simp: buffer_inv_def)
  let ?d' = "d\<lparr>responseTimes := Map_set (responseTimes d) serviceId (push b t)\<rparr>"
  have r: "recordResponseTime d serviceId t = Inr ?d'"
    using assms(1) Some by (simp add: recordResponseTime_def)
  have p: "buffer_inv (push b t)" "int (size_cb (push b t)) = sampleSize d"
    "count (push b t) = min (count b + 1) (nat (sampleSize d))"
    using pb le sz by (simp_all add: buffer_inv_push size_cb_push count_push)
  have inv: "detector_inv ?d'"
    using assms(3) p by (simp add: detector_inv_def distinct_Map_set list_all_Map_set)
  show ?thesis
    using r inv assms(1) Some p(3)
    by (auto simp: samplesCollected_def Map_get_set length_cb_def)
qed

lemma recordAll_samples:
  assumes "enabled d" "0 < sampleSize d" "detector_inv d"
  shows "\<exists>d'. recordAll d calls = Inr d' \<and> enabled d' \<and> sampleSize d' = sampleSize d \<and>
           multiplier d' = multiplier d \<and> detector_inv d' \<and>
           samplesCollected d' serviceId =
             min (samplesCollected d serviceId + length (filter (\<lambda>c. fst c = serviceId) calls))
                 (nat (sampleSize d))"
  using assms
proof (induction calls arbitrary: d)
  case Nil
  have "samplesCollected d serviceId \<le> nat (sampleSize d)"
  proof (cases "Map_get (responseTimes d) serviceId")
    case None
    then show ?thesis by (simp add: samplesCollected_def)
  next
    case (Some b)
    have "buffer_inv b \<and> int (size_cb b) = sampleSize d"
      using list_all_Map_get [OF _ Some, of "\<lambda>e. buffer_inv (snd e) \<and> int (size_cb (snd e)) = sampleSize d"]
        Nil(3) by (simp add: detector_inv_def)
    then show ?thesis using Some by (auto simp: samplesCollected_def buffer_inv_def length_cb_def)
  qed
  with Nil show ?case by simp
next
  case (Cons c calls)
  from recordResponseTime_step [OF Cons.prems, of "fst c" "snd c"]
  obtain d1 where d1: "recordResponseTime d (fst c) (snd c) = Inr d1" "enabled d1"
    "sampleSize d1 = sampleSize d" "multiplier d1 = multiplier d" "detector_inv d1"
    "\<forall>other. samplesCollected d1 other =
              (if other = fst c
               then min (samplesCollected d (fst c) + 1) (nat (sampleSize d))
               else samplesCollected d other)"
    by blast
  from d1(2,3,5) Cons.prems(2) have "0 < sampleSize d1" by simp
  from Cons.IH [OF d1(2) this d1(5)]
  obtain d' where d': "recordAll d1 calls = Inr d'" "enabled d'" "sampleSize d' = sampleSize d1"
    "multiplier d' = multiplier d1" "detector_inv d'"
    "samplesCollected d' serviceId =
       min (samplesCollected d1 serviceId + length (filter (\<lambda>c. fst c = serviceId) calls))
           (nat (sampleSize d1))"
    by blast
  have "recordAll d (c # calls) = Inr d'" using d1(1) d'(1) by simp
  moreover have "samplesCollected d' serviceId =
       min (samplesCollected d serviceId + length (filter (\<lambda>c. fst c = serviceId) (c # calls)))
           (nat (sampleSize d))"
    using d'(6) d1(6) d1(3) by (auto simp: min_def)
  ultimately show ?case using d' d1 by simp
qed

lemma fresh_detector:
  "detector_inv (new_AnomalyDetector cfg) \<and> samplesCollected (new_AnomalyDetector cfg) serviceId = 0"
  by (simp add: new_AnomalyDetector_def detector_inv_def samplesCollected_def Map_get_def)

lemma samplesCollected_Some:
  "5 \<le> samplesCollected d serviceId \<Longrightarrow>
   \<exists>b. Map_get (responseTimes d) serviceId = Some b \<and> length_cb b = samplesCollected d serviceId"
  by (auto simp: samplesCollected_def split: option.splits)

text \<open>
  C6, as stated, fails. With \<open>sampleSize = 3\<close> the buffer of a service never holds more
  than 3 samples: after 10 recorded samples of 100, \<open>checkAnomaly\<close> with 400 still answers
  \<open>isAnomaly = false\<close> with the reason "insufficient samples", where the claim has
  \<open>isAnomaly = (400 > 100 * 3)\<close>.
\<close>

theorem checkAnomaly_small_window_counterexample:
  "enabled (new_AnomalyDetector small_window) \<and>
   sampleSize (new_AnomalyDetector small_window) = 3 \<and>
   recordAll (new_AnomalyDetector small_window) ten_samples = Inr small_detector \<and>
   length (filter (\<lambda>c. fst c = ''http:api'') ten_samples) = 10 \<and>
   samplesCollected small_detector ''http:api'' = 3 \<and>
   checkAnomaly small_detector ''http:api'' 400 = (InsufficientSamples 3, small_detector) \<and>
   \<not> isAnomaly (fst (checkAnomaly small_detector ''http:api'' 400)) \<and>
   reason (fst (checkAnomaly small_detector ''http:api'' 400)) = Some ''insufficient samples''"
  by code_simp

text \<open>
  C6, amended. With detection enabled, \<open>checkAnomaly\<close> on a service whose buffer holds
  fewer than 5 samples returns \<open>isAnomaly = false\<close> with the reason "insufficient
  samples"; when the buffer holds at least 5 samples it returns
  \<open>isAnomaly = (t > median * multiplier)\<close> (multiplier 3 by default) and
  \<open>deviation = t / median\<close>. The call returns the detector unchanged, so \<open>t\<close> is not
  consumed as a sample. The buffer of a service holds the smaller of the number of samples
  recorded for it and \<open>sampleSize\<close>; so for a \<open>sampleSize\<close> of at least 5 (20 by default)
  it holds fewer than 5 samples exactly when fewer than 5 have been recorded. After 10
  recorded samples of 100 under the default configuration, \<open>checkAnomaly\<close> with 400 gives
  \<open>isAnomaly = true\<close> and \<open>deviation = 4\<close>.
\<close>

theorem checkAnomaly_contract:
  assumes "enabled d"
  shows "(samplesCollected d serviceId < 5 \<longrightarrow>
            checkAnomaly d serviceId t = (InsufficientSamples (samplesCollected d serviceId), d) \<and>
            isAnomaly (fst (checkAnomaly d serviceId t)) = False \<and>
            reason (fst (checkAnomaly d serviceId t)) = Some ''insufficient samples'') \<and>
         (5 \<le> samplesCollected d serviceId \<longrightarrow>
            (\<exists>b a. Map_get (responseTimes d) serviceId = Some b \<and>
               checkAnomaly d serviceId t = (Assessed a, d) \<and>
               isAnomaly (Assessed a) = (t > getMedian b * multiplier d) \<and>
               median a = getMedian b \<and>
               threshold a = getMedian b * multiplier d \<and>
               deviation a = js_div t (getMedian b) \<and>
               samples a = samplesCollected d serviceId)) \<and>
         snd (checkAnomaly d serviceId t) = d \<and>
         samplesCollected (snd (checkAnomaly d serviceId t)) serviceId = samplesCollected d serviceId \<and>
         multiplier (new_AnomalyDetector default_anomaly) = 3 \<and>
         (\<forall>cfg calls d'.
            enabled (new_AnomalyDetector cfg) \<and> 0 < sampleSize (new_AnomalyDetector cfg) \<and>
            recordAll (new_AnomalyDetector cfg) calls = Inr d' \<longrightarrow>
              samplesCollected d' serviceId =
                min (length (filter (\<lambda>c. fst c = serviceId) calls))
                    (nat (sampleSize (new_AnomalyDetector cfg)))) \<and>
         (\<forall>cfg calls d'.
            enabled (new_AnomalyDetector cfg) \<and> 5 \<le> sampleSize (new_AnomalyDetector cfg) \<and>
            recordAll (new_AnomalyDetector cfg) calls = Inr d' \<longrightarrow>
              (samplesCollected d' serviceId < 5 \<longleftrightarrow>
                 length (filter (\<lambda>c. fst c = serviceId) calls) < 5)) \<and>
         (\<exists>a. checkAnomaly (detector_after ten_samples) ''http:api'' 400
                 = (Assessed a, detector_after ten_samples) \<and>
              isAnomaly (Assessed a) \<and> deviation a = Finite 4 \<and> median a = 100 \<and> samples a = 10)"
proof (intro conjI impI allI)
  assume "samplesCollected d serviceId < 5"
  then show "checkAnomaly d serviceId t = (InsufficientSamples (samplesCollected d serviceId), d)"
    using assms by (auto simp: checkAnomaly_def samplesCollected_def split: option.splits)
  then show "isAnomaly (fst (checkAnomaly d serviceId t)) = False"
    "reason (fst (checkAnomaly d serviceId t)) = Some ''insufficient samples''"
    by simp_all
next
  assume "5 \<le> samplesCollected d serviceId"
  from samplesCollected_Some [OF this] obtain b where
    b: "Map_get (responseTimes d) serviceId = Some b" "length_cb b = samplesCollected d serviceId"
    by blast
  with \<open>5 \<le> samplesCollected d serviceId\<close> assms
  show "\<exists>b a. Map_get (responseTimes d) serviceId = Some b \<and>
               checkAnomaly d serviceId t = (Assessed a, d) \<and>
               isAnomaly (Assessed a) = (t > getMedian b * multiplier d) \<and>
               median a = getMedian b \<and>
               threshold a = getMedian b * multiplier d \<and>
               deviation a = js_div t (getMedian b) \<and>
               samples a = samplesCollected d serviceId"
    by (simp add: checkAnomaly_def Let_def)
next
  show u: "snd (checkAnomaly d serviceId t) = d"
    by (simp add: checkAnomaly_def Let_def split: option.splits)
  then show "samplesCollected (snd (checkAnomaly d serviceId t)) serviceId = samplesCollected d serviceId"
    by simp
next
  show "multiplier (new_AnomalyDetector default_anomaly) = 3"
    by (simp add: new_AnomalyDetector_def default_anomaly_def js_or_def)
next
  fix cfg calls d'
  assume a: "enabled (new_AnomalyDetector cfg) \<and> 0 < sampleSize (new_AnomalyDetector cfg) \<and>
            recordAll (new_AnomalyDetector cfg) calls = Inr d'"
  then have en: "enabled (new_AnomalyDetector cfg)"
    and pos: "0 < sampleSize (new_AnomalyDetector cfg)"
    and rec: "recordAll (new_AnomalyDetector cfg) calls = Inr d'"
    by blast+
  have inv: "detector_inv (new_AnomalyDetector cfg)"
    "samplesCollected (new_AnomalyDetector cfg) serviceId = 0"
    using fresh_detector [of cfg serviceId] by simp_all
  from recordAll_samples [OF en pos inv(1), of calls serviceId] rec inv(2)
  show "samplesCollected d' serviceId =
          min (length (filter (\<lambda>c. fst c = serviceId) calls))
              (nat (sampleSize (new_AnomalyDetector cfg)))"
    by auto
next
  fix cfg calls d'
  assume a: "enabled (new_AnomalyDetector cfg) \<and> 5 \<le> sampleSize (new_AnomalyDetector cfg) \<and>
            recordAll (new_AnomalyDetector cfg) calls = Inr d'"
  then have en: "enabled (new_AnomalyDetector cfg)"
    and five: "5 \<le> sampleSize (new_AnomalyDetector cfg)"
    and rec: "recordAll (new_AnomalyDetector cfg) calls = Inr d'"
    by blast+
  from five have pos: "0 < sampleSize (new_AnomalyDetector cfg)" by arith
  have inv: "detector_inv (new_AnomalyDetector cfg)"
    "samplesCollected (new_AnomalyDetector cfg) serviceId = 0"
    using fresh_detector [of cfg serviceId] by simp_all
  from recordAll_samples [OF en pos inv(1), of calls serviceId] rec inv(2)
  have "samplesCollected d' serviceId =
          min (length (filter (\<lambda>c. fst c = serviceId) calls))
              (nat (sampleSize (new_AnomalyDetector cfg)))"
    by auto
  with five show "samplesCollected d' serviceId < 5 \<longleftrightarrow>
                 length (filter (\<lambda>c. fst c = serviceId) calls) < 5"
    by (auto simp: min_def)
next
  show "\<exists>a. checkAnomaly (detector_after ten_samples) ''http:api'' 400
                 = (Assessed a, detector_after ten_samples) \<and>
              isAnomaly (Assessed a) \<and> deviation a = Finite 4 \<and> median a = 100 \<and> samples a = 10"
  proof -
    have "checkAnomaly (detector_after ten_samples) ''http:api'' 400 =
       (Assessed \<lparr>isAnomaly_a = True, responseTime_a = 400, median = 100, average = 100,
          threshold = 300, multiplier_a = 3, deviation = Finite 4, samples = 10\<rparr>,
        detector_after ten_samples)"
      by code_simp
    then show ?thesis by simp
  qed
qed

theorem checkAnomaly_contract_witness:
  "enabled (detector_after four_samples) \<and>
   samplesCollected (detector_after four_samples) ''http:api'' = 4 \<and>
   checkAnomaly (detector_after four_samples) ''http:api'' 400 =
     (InsufficientSamples 4, detector_after four_samples) \<and>
   reason (fst (checkAnomaly (detector_after four_samples) ''http:api'' 400))
     = Some ''insufficient samples'' \<and>
   enabled (detector_after ten_samples) \<and>
   samplesCollected (detector_after ten_samples) ''http:api'' = 10 \<and>
   isAnomaly (fst (checkAnomaly (detector_after ten_samples) ''http:api'' 400)) \<and>
   deviation_of (fst (checkAnomaly (detector_after ten_samples) ''http:api'' 400)) = Some (Finite 4) \<and>
   \<not> isAnomaly (fst (checkAnomaly (detector_after ten_samples) ''http:api'' 300)) \<and>
   snd (checkAnomaly (detector_after ten_samples) ''http:api'' 400) = detector_after ten_samples \<and>
   enabled (new_AnomalyDetector small_window) \<and>
   0 < sampleSize (new_AnomalyDetector small_window) \<and>
   recordAll (new_AnomalyDetector small_window) ten_samples = Inr small_detector \<and>
   samplesCollected small_detector ''http:api'' = 3"
proof -
  have sw: "enabled (new_AnomalyDetector small_window)"
    "0 < sampleSize (new_AnomalyDetector small_window)"
    "recordAll (new_AnomalyDetector small_window) ten_samples = Inr small_detector"
    by code_simp+
  have sn: "min (length (filter (\<lambda>c. fst c = ''http:api'') ten_samples))
              (nat (sampleSize (new_AnomalyDetector small_window))) = 3"
    by code_simp
  have e4: "enabled (detector_after four_samples)"
    "samplesCollected (detector_after four_samples) ''http:api'' = 4"
    by code_simp+
  have e10: "enabled (detector_after ten_samples)"
    "samplesCollected (detector_after ten_samples) ''http:api'' = 10"
    by code_simp+
  have g10: "Map_get (responseTimes (detector_after ten_samples)) ''http:api'' = Some api_buffer"
    "getMedian api_buffer = 100" "multiplier (detector_after ten_samples) = 3"
    by code_simp+
  have m10: "\<And>b. Map_get (responseTimes (detector_after ten_samples)) ''http:api'' = Some b \<Longrightarrow>
     getMedian b = 100"
    "multiplier (detector_after ten_samples) = 3"
    using g10 by simp_all
  note c4 = checkAnomaly_contract [OF e4(1), of "''http:api''" 400]
  with e4(2) have i4: "checkAnomaly (detector_after four_samples) ''http:api'' 400 =
     (InsufficientSamples 4, detector_after four_samples)"
    "reason (fst (checkAnomaly (detector_after four_samples) ''http:api'' 400))
       = Some ''insufficient samples''"
    by simp_all
  note c10 = checkAnomaly_contract [OF e10(1), of "''http:api''" 400]
  note c10' = checkAnomaly_contract [OF e10(1), of "''http:api''" 300]
  from c10 e10(2) obtain b a where a:
    "Map_get (responseTimes (detector_after ten_samples)) ''http:api'' = Some b"
    "checkAnomaly (detector_after ten_samples) ''http:api'' 400 = (Assessed a, detector_after ten_samples)"
    "isAnomaly (Assessed a) = (400 > getMedian b * multiplier (detector_after ten_samples))"
    "deviation a = js_div 400 (getMedian b)"
    by auto
  from c10' e10(2) obtain b' a' where a':
    "Map_get (responseTimes (detector_after ten_samples)) ''http:api'' = Some b'"
    "checkAnomaly (detector_after ten_samples) ''http:api'' 300 = (Assessed a', detector_after ten_samples)"
    "isAnomaly (Assessed a') = (300 > getMedian b' * multiplier (detector_after ten_samples))"
    by auto
  have r1: "isAnomaly (fst (checkAnomaly (detector_after ten_samples) ''http:api'' 400))"
    "deviation_of (fst (checkAnomaly (detector_after ten_samples) ''http:api'' 400)) = Some (Finite 4)"
    using a m10(1) [OF a(1)] m10(2) by (simp_all add: js_div_def)
  have r2: "\<not> isAnomaly (fst (checkAnomaly (detector_after ten_samples) ''http:api'' 300))"
    using a' m10(1) [OF a'(1)] m10(2) by simp
  have r3: "snd (checkAnomaly (detector_after ten_samples) ''http:api'' 400) = detector_after ten_samples"
    using c10 by blast
  from c10 sw have "samplesCollected small_detector ''http:api'' =
      min (length (filter (\<lambda>c. fst c = ''http:api'') ten_samples))
          (nat (sampleSize (new_AnomalyDetector small_window)))"
    by blast
  with sn have r4: "samplesCollected small_detector ''http:api'' = 3" by simp
  from e4 e10 i4 r1 r2 r3 r4 sw show ?thesis by blast
qed

lemma median_all_zero:
  assumes "\<forall>v \<in> set (getAll b). v = 0"
  shows "getMedian b = 0"
proof -
  have z: "\<And>i. i < length (sort (getAll b)) \<Longrightarrow> sort (getAll b) ! i = 0"
  proof -
    fix i assume "i < length (sort (getAll b))"
    then have "sort (getAll b) ! i \<in> set (sort (getAll b))" by (rule nth_mem)
    with assms show "sort (getAll b) ! i = 0" by simp
  qed
  show ?thesis
  proof (cases "getAll b = []")
    case True
    then show ?thesis by (simp add: getMedian_def)
  next
    case False
    then have pos: "0 < length (getAll b)" by simp
    then have "length (getAll b) div 2 < length (getAll b)"
      "length (getAll b) div 2 - 1 < length (getAll b)" by arith+
    then have "length (getAll b) div 2 < length (sort (getAll b))"
      "length (getAll b) div 2 - 1 < length (sort (getAll b))" by simp_all
    with z have "sort (getAll b) ! (length (getAll b) div 2) = 0"
      "sort (getAll b) ! (length (getAll b) div 2 - 1) = 0" by blast+
    then show ?thesis by (simp add: getMedian_def Let_def)
  qed
qed

text \<open>
  C10. With detection enabled and at least 5 samples whose median is 0, \<open>checkAnomaly\<close>
  returns a full assessment (no exception) with \<open>threshold = 0\<close>, so that
  \<open>isAnomaly = (t > 0)\<close>, and \<open>deviation = t / 0\<close>, which is \<open>Infinity\<close>, \<open>-Infinity\<close> or
  \<open>NaN\<close> and never a finite number.
\<close>

theorem zero_median_division:
  assumes "enabled d" and "Map_get (responseTimes d) serviceId = Some b"
    and "5 \<le> length_cb b" and "getMedian b = 0"
  shows "\<exists>a. checkAnomaly d serviceId t = (Assessed a, d) \<and>
           median a = 0 \<and> threshold a = 0 \<and>
           isAnomaly (Assessed a) = (0 < t) \<and>
           deviation a = js_div t 0 \<and>
           deviation a = (if t = 0 then NaN else if 0 < t then PosInfinity else NegInfinity) \<and>
           \<not> isFinite (deviation a)"
  using assms by (simp add: checkAnomaly_def Let_def js_div_def)

theorem zero_median_division_witness:
  "enabled (detector_after zero_samples) \<and>
   Map_get (responseTimes (detector_after zero_samples)) ''http:idle'' = Some idle_buffer \<and>
   5 \<le> length_cb idle_buffer \<and> getMedian idle_buffer = 0 \<and>
   isAnomaly (fst (checkAnomaly (detector_after zero_samples) ''http:idle'' 250)) \<and>
   threshold_of (fst (checkAnomaly (detector_after zero_samples) ''http:idle'' 250)) = Some 0 \<and>
   deviation_of (fst (checkAnomaly (detector_after zero_samples) ''http:idle'' 250)) = Some PosInfinity \<and>
   \<not> isAnomaly (fst (checkAnomaly (detector_after zero_samples) ''http:idle'' 0)) \<and>
   deviation_of (fst (checkAnomaly (detector_after zero_samples) ''http:idle'' 0)) = Some NaN"
proof -
  have h: "enabled (detector_after zero_samples)"
    "Map_get (responseTimes (detector_after zero_samples)) ''http:idle'' = Some idle_buffer"
    "5 \<le> length_cb idle_buffer" "getMedian idle_buffer = 0"
    by code_simp+
  from zero_median_division [OF h, of 250] obtain a where a:
    "checkAnomaly (detector_after zero_samples) ''http:idle'' 250 = (Assessed a, detector_after zero_samples)"
    "threshold a = 0" "isAnomaly (Assessed a) = (0 < (250::rat))"
    "deviation a = (if (250::rat) = 0 then NaN else if 0 < (250::rat) then PosInfinity else NegInfinity)"
    by blast
  from zero_median_division [OF h, of 0] obtain a0 where a0:
    "checkAnomaly (detector_after zero_samples) ''http:idle'' 0 = (Assessed a0, detector_after zero_samples)"
    "isAnomaly (Assessed a0) = (0 < (0::rat))"
    "deviation a0 = (if (0::rat) = 0 then NaN else if 0 < (0::rat) then PosInfinity else NegInfinity)"
    by blast
  from h a a0 show ?thesis by simp
qed

end
